theory Spec2Isabelle
  imports Main
begin

section \<open>JavaScript values and strings\<close>

text \<open>
  The resolvers exchange JSON with the upstream system. A parsed JSON document is a
  \<open>jsval\<close>; numbers are restricted to integers. An object is the list of its own
  entries, in the order \<open>Object.entries\<close> gives them.
\<close>

datatype jsval =
    JUndefined
  | JNull
  | JBool bool
  | JNum int
  | JStr string
  | JArr "jsval list"
  | JObj "(string \<times> jsval) list"

text \<open>Truthiness, as used by \<open>a || b\<close>, \<open>!a\<close> and \<open>if (a)\<close>.\<close>

fun truthy :: "jsval \<Rightarrow> bool" where
  "truthy JUndefined = False"
| "truthy JNull = False"
| "truthy (JBool b) = b"
| "truthy (JNum n) = (n \<noteq> 0)"
| "truthy (JStr s) = (s \<noteq> [])"
| "truthy (JArr vs) = True"
| "truthy (JObj kvs) = True"

text \<open>\<open>a || b\<close> on values.\<close>

definition js_or :: "jsval \<Rightarrow> jsval \<Rightarrow> jsval" where
  "js_or a b = (if truthy a then a else b)"

text \<open>
  Errors carry their message, which is all a resolver reports of them
  (\<open>{ error: true, message: error.message }\<close>). \<open>Error\<close> is a \<open>new Error(msg)\<close> of the
  source, \<open>TypeError\<close> is raised by the language itself (a property read on \<open>null\<close> or
  \<open>undefined\<close>), \<open>FetchError\<close> is a rejected \<open>api.fetch\<close> or a body that is not JSON.
\<close>

datatype error = Error string | TypeError string | FetchError string

fun message :: "error \<Rightarrow> string" where
  "message (Error m) = m"
| "message (TypeError m) = m"
| "message (FetchError m) = m"

text \<open>
  \<open>data.name\<close> for the names \<open>records\<close> and \<open>totalSize\<close>, which no prototype defines:
  the read throws on \<open>null\<close> and \<open>undefined\<close>, gives the own property of an object and
  \<open>undefined\<close> everywhere else.
\<close>

fun get_field :: "jsval \<Rightarrow> string \<Rightarrow> error + jsval" where
  "get_field JUndefined name =
     Inl (TypeError (''Cannot read properties of undefined (reading '' @ [CHR 0x27] @ name @ [CHR 0x27] @ '')''))"
| "get_field JNull name =
     Inl (TypeError (''Cannot read properties of null (reading '' @ [CHR 0x27] @ name @ [CHR 0x27] @ '')''))"
| "get_field (JObj kvs) name = Inr (case map_of kvs name of None \<Rightarrow> JUndefined | Some v \<Rightarrow> v)"
| "get_field v name = Inr JUndefined"

text \<open>\<open>xs.join(sep)\<close> on a list of strings.\<close>

fun join :: "string \<Rightarrow> string list \<Rightarrow> string" where
  "join sep [] = []"
| "join sep [x] = x"
| "join sep (x # y # ys) = x @ sep @ join sep (y # ys)"

text \<open>\<open>s.includes(t)\<close>: \<open>t\<close> occurs in \<open>s\<close> as a contiguous substring.\<close>

fun starts_with :: "string \<Rightarrow> string \<Rightarrow> bool" where
  "starts_with s [] = True"
| "starts_with [] (c # t) = False"
| "starts_with (d # s) (c # t) = (d = c \<and> starts_with s t)"

fun str_includes :: "string \<Rightarrow> string \<Rightarrow> bool" where
  "str_includes [] t = (t = [])"
| "str_includes (c # s) t = (starts_with (c # s) t \<or> str_includes s t)"

text \<open>
  Template interpolation \<open>${n}\<close> of a non-negative integer below \<open>10^21\<close>: its decimal
  numeral. The payload numbers \<open>limit\<close> and \<open>offset\<close> are naturals in that range.
\<close>

definition digit :: "nat \<Rightarrow> char" where
  "digit d = ''0123456789'' ! d"

fun decimal :: "nat \<Rightarrow> string" where
  "decimal n = (if n < 10 then [digit n] else decimal (n div 10) @ [digit (n mod 10)])"

declare decimal.simps [simp del]

section \<open>Process environment and credentials (signed-assertion variant)\<close>

text \<open>
  \<open>process.env\<close> is a map from variable names to strings. A variable is falsy when it
  is unset or the empty string.
\<close>

type_synonym environment = "string \<rightharpoonup> string"

definition falsy_var :: "string option \<Rightarrow> bool" where
  "falsy_var v = (case v of None \<Rightarrow> True | Some s \<Rightarrow> s = [])"

text \<open>The string held by a variable that has been found truthy.\<close>

definition env_val :: "string option \<Rightarrow> string" where
  "env_val v = (case v of None \<Rightarrow> [] | Some s \<Rightarrow> s)"

text \<open>\<open>process.env.X || dflt\<close>.\<close>

definition env_or :: "string option \<Rightarrow> string \<Rightarrow> string" where
  "env_or v dflt = (case v of None \<Rightarrow> dflt | Some s \<Rightarrow> if s = [] then dflt else s)"

record jwt_credentials =
  clientId :: string
  username :: string
  privateKey :: string

text \<open>
  \<open>getJwtCredentials\<close>: the three pushes onto \<open>missing\<close>, in the source's order, then one
  throw naming all of them.
\<close>

definition getJwtCredentials :: "environment \<Rightarrow> error + jwt_credentials" where
  "getJwtCredentials e =
    (let clientId = e ''SALESFORCE_CLIENT_ID'';
         username = e ''SALESFORCE_USERNAME'';
         privateKey = e ''SALESFORCE_JWT_PRIVATE_KEY'';
         missing = [];
         missing = (if falsy_var clientId then missing @ [''SALESFORCE_CLIENT_ID''] else missing);
         missing = (if falsy_var username then missing @ [''SALESFORCE_USERNAME''] else missing);
         missing = (if falsy_var privateKey then missing @ [''SALESFORCE_JWT_PRIVATE_KEY''] else missing)
     in if length missing > 0
        then Inl (Error (''Missing required Forge variables: '' @ join '', '' missing))
        else Inr \<lparr> clientId = env_val clientId, username = env_val username,
                  privateKey = env_val privateKey \<rparr>)"

definition getBusinessUnitId :: "environment \<Rightarrow> string option" where
  "getBusinessUnitId e =
    (case e ''SALESFORCE_BUSINESS_UNIT_ID'' of None \<Rightarrow> None | Some s \<Rightarrow> if s = [] then None else Some s)"

definition getLoginUrl :: "environment \<Rightarrow> string" where
  "getLoginUrl e = env_or (e ''SALESFORCE_LOGIN_URL'') ''https://login.salesforce.com''"

section \<open>Upstream system, effects and process state\<close>

text \<open>
  \<open>AuthResult\<close>, the pair every authentication returns, and the cache entry made of it.
  The token endpoint's JSON is taken to carry both fields as strings.
\<close>

record auth =
  access_token :: string
  instance_url :: string

record cached_token = auth +
  expiresAt :: nat

text \<open>
  An HTTP response: \<open>response.status\<close>, the body as \<open>response.text()\<close> gives it, and what
  \<open>response.json()\<close> gives: the parsed body, or the error it rejects with.
\<close>

record 'j response =
  status :: nat
  body_text :: string
  body_json :: "error + 'j"

text \<open>\<open>response.ok\<close>: a status of 200 to 299.\<close>

definition ok :: "('j, 'z) response_scheme \<Rightarrow> bool" where
  "ok r = (200 \<le> status r \<and> status r \<le> 299)"

text \<open>An \<open>api.fetch\<close> either rejects (a network error) or gives a response.\<close>

datatype 'j fetched = Rejected error | Responded "'j response"

text \<open>
  The two outbound calls. A \<open>TokenRequest\<close> is the POST of the form parameters to the
  token endpoint. A \<open>QueryRequest\<close> is the GET of
  \<open>${instance_url}/services/data/v60.0/query?q=${encodeURIComponent(soql)}\<close>, kept as its
  base URL, its query and its headers.
\<close>

datatype request =
    TokenRequest string "(string \<times> string) list"
  | QueryRequest string string "(string \<times> string) list"

datatype effect = Fetch request | Sleep nat

record jwt_payload =
  iss :: string
  sub :: string
  aud :: string
  exp :: nat

text \<open>
  Everything outside the process: how the token endpoint and the data endpoint answer the
  request made after a given number of earlier effects, with the milliseconds the answer
  takes, and the library call \<open>jwt.sign(payload, privateKey, { algorithm: "RS256" })\<close>,
  which returns the assertion or throws.
\<close>

record upstream =
  token_endpoint :: "nat \<Rightarrow> request \<Rightarrow> nat \<times> auth fetched"
  data_endpoint :: "nat \<Rightarrow> request \<Rightarrow> nat \<times> jsval fetched"
  jwt_sign :: "jwt_payload \<Rightarrow> string \<Rightarrow> error + string"

text \<open>
  The process: its environment variables, the two module-level variables \<open>tokenCache\<close> and
  \<open>tokenPromise\<close> (whether it is non-null), the clock \<open>Date.now()\<close> in milliseconds, and the
  effects performed so far. Console output is not modelled.
\<close>

record world =
  env :: environment
  tokenCache :: "cached_token option"
  tokenPromise :: bool
  now :: nat
  log :: "effect list"

text \<open>
  The result of running an async function to its end: it returns, it throws, or it is left
  awaiting the refresh another caller has in flight (\<open>Join\<close>), whose result is not this
  run's to compute.
\<close>

datatype 'a outcome = Return 'a | Throw error | Join

definition api_fetch_token :: "upstream \<Rightarrow> request \<Rightarrow> world \<Rightarrow> auth fetched \<times> world" where
  "api_fetch_token up req w =
    (let (d, r) = token_endpoint up (length (log w)) req
     in (r, w\<lparr> log := log w @ [Fetch req], now := now w + d \<rparr>))"

definition api_fetch_data :: "upstream \<Rightarrow> request \<Rightarrow> world \<Rightarrow> jsval fetched \<times> world" where
  "api_fetch_data up req w =
    (let (d, r) = data_endpoint up (length (log w)) req
     in (r, w\<lparr> log := log w @ [Fetch req], now := now w + d \<rparr>))"

text \<open>\<open>await new Promise((r) => setTimeout(r, ms))\<close>.\<close>

definition sleep :: "nat \<Rightarrow> world \<Rightarrow> world" where
  "sleep ms w = w\<lparr> log := log w @ [Sleep ms], now := now w + ms \<rparr>"

text \<open>\<open>return resp.json()\<close>.\<close>

definition json_outcome :: "'j response \<Rightarrow> 'j outcome" where
  "json_outcome r = (case body_json r of Inl e \<Rightarrow> Throw e | Inr j \<Rightarrow> Return j)"

text \<open>
  The test \<open>tokenCache && Date.now() < tokenCache.expiresAt\<close>: the cache entry when the test
  holds, nothing when it fails.
\<close>

definition fresh_entry :: "cached_token option \<Rightarrow> nat \<Rightarrow> cached_token option" where
  "fresh_entry cache t =
    (case cache of
       None \<Rightarrow> None
     | Some c \<Rightarrow> if t < expiresAt c then Some c else None)"

definition fresh_token :: "world \<Rightarrow> cached_token option" where
  "fresh_token w = fresh_entry (tokenCache w) (now w)"

definition cache_entry :: "auth \<Rightarrow> nat \<Rightarrow> cached_token" where
  "cache_entry a t =
    \<lparr> access_token = access_token a, instance_url = instance_url a, expiresAt = t + 55 * 60 * 1000 \<rparr>"

definition cached_auth :: "cached_token \<Rightarrow> auth" where
  "cached_auth c = \<lparr> access_token = access_token c, instance_url = instance_url c \<rparr>"

section \<open>Signed-assertion variant: authentication, token cache, executor\<close>

definition authenticateWithJwt :: "upstream \<Rightarrow> world \<Rightarrow> auth outcome \<times> world" where
  "authenticateWithJwt up w =
    (case getJwtCredentials (env w) of
       Inl e \<Rightarrow> (Throw e, w)
     | Inr c \<Rightarrow>
        (let loginUrl = getLoginUrl (env w);
             tokenEndpoint = loginUrl @ ''/services/oauth2/token'';
             payload = \<lparr> iss = clientId c, sub = username c, aud = loginUrl,
                         exp = now w div 1000 + 180 \<rparr>
         in case jwt_sign up payload (privateKey c) of
              Inl e \<Rightarrow> (Throw e, w)
            | Inr jwtToken \<Rightarrow>
               (let params = [(''grant_type'', ''urn:ietf:params:oauth:grant-type:jwt-bearer''),
                              (''assertion'', jwtToken)];
                    (response, w1) = api_fetch_token up (TokenRequest tokenEndpoint params) w
                in case response of
                     Rejected e \<Rightarrow> (Throw e, w1)
                   | Responded r \<Rightarrow>
                      if \<not> ok r then (Throw (Error (body_text r)), w1)
                      else (case body_json r of
                              Inl e \<Rightarrow> (Throw e, w1)
                            | Inr a \<Rightarrow>
                               (Return \<lparr> access_token = access_token a,
                                         instance_url = instance_url a \<rparr>, w1)))))"


text \<open>\<open>reauthenticate(retries = 2)\<close>: the \<open>catch\<close> takes every error of the attempt.\<close>

fun reauthenticate :: "nat \<Rightarrow> upstream \<Rightarrow> world \<Rightarrow> auth outcome \<times> world" where
  "reauthenticate retries up w =
    (case authenticateWithJwt up w of
       (Return a, w1) \<Rightarrow> (Return a, w1\<lparr> tokenCache := Some (cache_entry a (now w1)) \<rparr>)
     | (Throw e, w1) \<Rightarrow>
        if retries > 0 then reauthenticate (retries - 1) up (sleep 1000 w1)
        else (Throw e, w1\<lparr> tokenCache := None \<rparr>)
     | (Join, w1) \<Rightarrow> (Join, w1))"

declare reauthenticate.simps [simp del]

definition jwt_getSalesforceAccessToken :: "upstream \<Rightarrow> world \<Rightarrow> auth outcome \<times> world" where
  "jwt_getSalesforceAccessToken up w =
    (case fresh_token w of
       Some c \<Rightarrow> (Return (cached_auth c), w)
     | None \<Rightarrow>
        if tokenPromise w then (Join, w)
        else (let (r, w1) = reauthenticate 2 up (w\<lparr> tokenPromise := True \<rparr>)
              in (r, w1\<lparr> tokenPromise := False \<rparr>)))"

text \<open>\<open>buildSalesforceHeaders(includePardotBuid = false)\<close>: the headers and the base URL.\<close>

definition buildSalesforceHeaders ::
  "bool \<Rightarrow> upstream \<Rightarrow> world \<Rightarrow> ((string \<times> string) list \<times> string) outcome \<times> world" where
  "buildSalesforceHeaders includePardotBuid up w =
    (case jwt_getSalesforceAccessToken up w of
       (Return a, w1) \<Rightarrow>
        (let headers = [(''Authorization'', ''Bearer '' @ access_token a),
                        (''Content-Type'', ''application/json'')];
             headers = (if includePardotBuid
                        then (case getBusinessUnitId (env w1) of
                                Some buid \<Rightarrow> headers @ [(''Pardot-Business-Unit-Id'', buid)]
                              | None \<Rightarrow> headers)
                        else headers)
         in (Return (headers, instance_url a), w1))
     | (Throw e, w1) \<Rightarrow> (Throw e, w1)
     | (Join, w1) \<Rightarrow> (Join, w1))"

definition jwt_executeSalesforceQuery :: "string \<Rightarrow> upstream \<Rightarrow> world \<Rightarrow> jsval outcome \<times> world" where
  "jwt_executeSalesforceQuery soql up w =
    (case buildSalesforceHeaders False up w of
       (Return (headers, url), w1) \<Rightarrow>
        (let (resp, w2) = api_fetch_data up (QueryRequest url soql headers) w1
         in case resp of
              Rejected e \<Rightarrow> (Throw e, w2)
            | Responded r \<Rightarrow>
               if \<not> ok r then
                 (if status r = 401 then
                    (let w3 = w2\<lparr> tokenCache := None \<rparr>
                     in case buildSalesforceHeaders False up w3 of
                          (Return (retry_headers, retry_url), w4) \<Rightarrow>
                           (let (retryResp, w5) =
                                  api_fetch_data up (QueryRequest retry_url soql retry_headers) w4
                            in case retryResp of
                                 Rejected e \<Rightarrow> (Throw e, w5)
                               | Responded rr \<Rightarrow>
                                  if \<not> ok rr then (Throw (Error (body_text rr)), w5)
                                  else (json_outcome rr, w5))
                        | (Throw e, w4) \<Rightarrow> (Throw e, w4)
                        | (Join, w4) \<Rightarrow> (Join, w4))
                  else (Throw (Error (body_text r)), w2))
               else (json_outcome r, w2))
     | (Throw e, w1) \<Rightarrow> (Throw e, w1)
     | (Join, w1) \<Rightarrow> (Join, w1))"

section \<open>Refresh-token variant: authentication, token cache, executor\<close>

text \<open>A \<open>process.env\<close> value as \<open>URLSearchParams\<close> stringifies it.\<close>

definition env_str :: "string option \<Rightarrow> string" where
  "env_str v = (case v of None \<Rightarrow> ''undefined'' | Some s \<Rightarrow> s)"

text \<open>\<open>refreshAccessToken(retries = 2)\<close>.\<close>

fun refreshAccessToken :: "nat \<Rightarrow> upstream \<Rightarrow> world \<Rightarrow> auth outcome \<times> world" where
  "refreshAccessToken retries up w =
    (let loginUrl = env_or (env w ''SALESFORCE_LOGIN_URL'') ''https://login.salesforce.com'';
         tokenEndpoint = loginUrl @ ''/services/oauth2/token'';
         params = [(''grant_type'', ''refresh_token''),
                   (''client_id'', env_str (env w ''SALESFORCE_CLIENT_ID'')),
                   (''client_secret'', env_str (env w ''SALESFORCE_CLIENT_SECRET'')),
                   (''refresh_token'', env_str (env w ''SALESFORCE_REFRESH_TOKEN''))]
     in case api_fetch_token up (TokenRequest tokenEndpoint params) w of
          (Rejected e, w1) \<Rightarrow> (Throw e, w1)
        | (Responded r, w1) \<Rightarrow>
           if \<not> ok r then
             (if retries > 0 \<and> status r = 400 \<and> str_includes (body_text r) ''retry your request''
              then refreshAccessToken (retries - 1) up (sleep 1000 w1)
              else (Throw (Error (''Salesforce Auth Failed: '' @ body_text r)), w1))
           else (case body_json r of
                   Inl e \<Rightarrow> (Throw e, w1)
                 | Inr a \<Rightarrow>
                    (Return \<lparr> access_token = access_token a, instance_url = instance_url a \<rparr>,
                     w1\<lparr> tokenCache := Some (cache_entry a (now w1)) \<rparr>)))"

declare refreshAccessToken.simps [simp del]

definition rt_getSalesforceAccessToken :: "upstream \<Rightarrow> world \<Rightarrow> auth outcome \<times> world" where
  "rt_getSalesforceAccessToken up w =
    (case fresh_token w of
       Some c \<Rightarrow> (Return (cached_auth c), w)
     | None \<Rightarrow>
        if tokenPromise w then (Join, w)
        else (let (r, w1) = refreshAccessToken 2 up (w\<lparr> tokenPromise := True \<rparr>)
              in (r, w1\<lparr> tokenPromise := False \<rparr>)))"

definition rt_executeSalesforceQuery :: "string \<Rightarrow> upstream \<Rightarrow> world \<Rightarrow> jsval outcome \<times> world" where
  "rt_executeSalesforceQuery soql up w =
    (case rt_getSalesforceAccessToken up w of
       (Return a, w1) \<Rightarrow>
        (let headers = [(''Authorization'', ''Bearer '' @ access_token a),
                        (''Content-Type'', ''application/json'')];
             (resp, w2) = api_fetch_data up (QueryRequest (instance_url a) soql headers) w1
         in case resp of
              Rejected e \<Rightarrow> (Throw e, w2)
            | Responded r \<Rightarrow>
               if \<not> ok r
               then (Throw (Error (''Salesforce Query Failed ('' @ decimal (status r) @ ''): ''
                                   @ body_text r)), w2)
               else (json_outcome r, w2))
     | (Throw e, w1) \<Rightarrow> (Throw e, w1)
     | (Join, w1) \<Rightarrow> (Join, w1))"

section \<open>Query construction and the \<open>querySalesforce\<close> resolver\<close>

text \<open>An entry of \<open>OBJECT_CONFIG\<close>; \<open>cfg_fields\<close> is its property \<open>fields\<close>.\<close>

record object_config =
  cfg_fields :: "string list"
  columns :: "string list"
  searchField :: string
  filterFields :: "(string \<times> string \<times> string) list"

definition OBJECT_CONFIG :: "(string \<times> object_config) list" where
  "OBJECT_CONFIG =
    [(''Account'',
      \<lparr> cfg_fields = [''Id'', ''Name'', ''Industry'', ''Type'', ''Phone''],
        columns = [''Name'', ''Industry'', ''Type'', ''Phone''],
        searchField = ''Name'',
        filterFields = [(''Industry'', ''Industry'', ''picklist''), (''Type'', ''Type'', ''picklist'')] \<rparr>),
     (''Contact'',
      \<lparr> cfg_fields = [''Id'', ''FirstName'', ''LastName'', ''Email'', ''Phone'', ''Account.Name''],
        columns = [''First Name'', ''Last Name'', ''Email'', ''Phone'', ''Account''],
        searchField = ''LastName'',
        filterFields = [] \<rparr>),
     (''Opportunity'',
      \<lparr> cfg_fields = [''Id'', ''Name'', ''StageName'', ''Amount'', ''CloseDate'', ''Account.Name''],
        columns = [''Name'', ''Stage'', ''Amount'', ''Close Date'', ''Account''],
        searchField = ''Name'',
        filterFields = [(''StageName'', ''Stage'', ''picklist'')] \<rparr>)]"

text \<open>
  \<open>OBJECT_CONFIG\<close> is an object literal, so \<open>OBJECT_CONFIG[objectType]\<close> also finds what
  \<open>Object.prototype\<close> defines: under each of these names it gives a function or an object,
  which is truthy and has neither \<open>fields\<close> nor \<open>searchField\<close>.
\<close>

definition object_prototype_keys :: "string list" where
  "object_prototype_keys =
    [''constructor'', ''__proto__'', ''hasOwnProperty'', ''isPrototypeOf'',
     ''propertyIsEnumerable'', ''toLocaleString'', ''toString'', ''valueOf'',
     ''__defineGetter__'', ''__defineSetter__'', ''__lookupGetter__'', ''__lookupSetter__'']"

datatype config_lookup = Own object_config | Inherited | Absent

definition lookup_config :: "string \<Rightarrow> config_lookup" where
  "lookup_config objectType =
    (case map_of OBJECT_CONFIG objectType of
       Some config \<Rightarrow> Own config
     | None \<Rightarrow> if objectType \<in> set object_prototype_keys then Inherited else Absent)"

text \<open>\<open>s.replace(/'/g, "\\'")\<close>: a backslash before every single quote.\<close>

definition quote :: char where
  "quote = CHR 0x27"

definition backslash :: char where
  "backslash = CHR 0x5C"

fun escape_quotes :: "string \<Rightarrow> string" where
  "escape_quotes [] = []"
| "escape_quotes (c # s) = (if c = quote then backslash # quote # escape_quotes s
                            else c # escape_quotes s)"

text \<open>
  The payload of \<open>querySalesforce\<close>; an absent property is \<open>None\<close>. \<open>search\<close> and the filter
  values are strings (on which \<open>String(value)\<close> is the identity), \<open>filters\<close> is the list
  \<open>Object.entries(filters)\<close>, \<open>limit\<close> and \<open>offset\<close> are naturals.
\<close>

record payload =
  objectType :: string
  search :: "string option"
  filters :: "(string \<times> string) list option"
  limit :: "nat option"
  offset :: "nat option"

text \<open>A destructuring default: \<open>{ x = dflt } = payload\<close>.\<close>

definition default_to :: "'a \<Rightarrow> 'a option \<Rightarrow> 'a" where
  "default_to dflt v = (case v of None \<Rightarrow> dflt | Some x \<Rightarrow> x)"

text \<open>The \<open>where\<close> array: the search clause, then one push per truthy filter value.\<close>

definition search_clause :: "string \<Rightarrow> string \<Rightarrow> string" where
  "search_clause field s = field @ '' LIKE '' @ [quote] @ ''%'' @ escape_quotes s @ ''%'' @ [quote]"

definition filter_clause :: "string \<Rightarrow> string \<Rightarrow> string" where
  "filter_clause field v = field @ '' = '' @ [quote] @ escape_quotes v @ [quote]"

fun push_filters :: "string list \<Rightarrow> (string \<times> string) list \<Rightarrow> string list" where
  "push_filters wh [] = wh"
| "push_filters wh ((field, v) # rest) =
     push_filters (if v \<noteq> [] then wh @ [filter_clause field v] else wh) rest"

definition where_clauses :: "string \<Rightarrow> string \<Rightarrow> (string \<times> string) list \<Rightarrow> string list" where
  "where_clauses sField s fs =
    (let wh = [];
         wh = (if s \<noteq> [] then wh @ [search_clause sField s] else wh)
     in push_filters wh fs)"

text \<open>The query text, from \<open>let soql = ...\<close> to the last \<open>soql += ...\<close>.\<close>

definition build_soql ::
  "object_config \<Rightarrow> string \<Rightarrow> string \<Rightarrow> (string \<times> string) list \<Rightarrow> nat \<Rightarrow> nat \<Rightarrow> string" where
  "build_soql config objType s fs lim off =
    (let wh = where_clauses (searchField config) s fs;
         soql = ''SELECT '' @ join '', '' (cfg_fields config) @ '' FROM '' @ objType;
         soql = (if length wh > 0 then soql @ '' WHERE '' @ join '' AND '' wh else soql)
     in soql @ '' ORDER BY '' @ searchField config @ '' ASC LIMIT '' @ decimal lim
             @ '' OFFSET '' @ decimal off)"

text \<open>What the resolver answers: \<open>{ records, totalSize }\<close> or \<open>{ error: true, message }\<close>.\<close>

datatype query_result = Records jsval jsval | QueryError string

text \<open>
  The \<open>try\<close> block of \<open>querySalesforce\<close>, the same text in both variants, over the variant's
  own \<open>executeSalesforceQuery\<close>. For a name found on the prototype the \<open>where\<close> array is
  built without a throw and \<open>config.fields.join\<close> then reads \<open>join\<close> of \<open>undefined\<close>.
\<close>

definition querySalesforce_try ::
  "(string \<Rightarrow> upstream \<Rightarrow> world \<Rightarrow> jsval outcome \<times> world) \<Rightarrow>
   payload \<Rightarrow> upstream \<Rightarrow> world \<Rightarrow> query_result outcome \<times> world" where
  "querySalesforce_try executeSalesforceQuery p up w =
    (let objType = objectType p;
         s = default_to [] (search p);
         fs = default_to [] (filters p);
         lim = default_to 50 (limit p);
         off = default_to 0 (offset p)
     in case lookup_config objType of
          Absent \<Rightarrow> (Throw (Error (''Unsupported object: '' @ objType)), w)
        | Inherited \<Rightarrow>
           (Throw (TypeError (''Cannot read properties of undefined (reading ''
                              @ [quote] @ ''join'' @ [quote] @ '')'')), w)
        | Own config \<Rightarrow>
           (case executeSalesforceQuery (build_soql config objType s fs lim off) up w of
              (Return data, w1) \<Rightarrow>
               (case get_field data ''records'' of
                  Inl e \<Rightarrow> (Throw e, w1)
                | Inr recs \<Rightarrow>
                   (case get_field data ''totalSize'' of
                      Inl e \<Rightarrow> (Throw e, w1)
                    | Inr totalSize \<Rightarrow>
                       (Return (Records (js_or recs (JArr [])) (js_or totalSize (JNum 0))), w1)))
            | (Throw e, w1) \<Rightarrow> (Throw e, w1)
            | (Join, w1) \<Rightarrow> (Join, w1)))"

text \<open>The \<open>catch\<close>: \<open>return { error: true, message: error.message }\<close>.\<close>

definition catch_error :: "query_result outcome \<times> world \<Rightarrow> query_result outcome \<times> world" where
  "catch_error rw =
    (case rw of
       (Throw e, w1) \<Rightarrow> (Return (QueryError (message e)), w1)
     | (Return v, w1) \<Rightarrow> (Return v, w1)
     | (Join, w1) \<Rightarrow> (Join, w1))"

definition jwt_querySalesforce :: "payload \<Rightarrow> upstream \<Rightarrow> world \<Rightarrow> query_result outcome \<times> world" where
  "jwt_querySalesforce p up w = catch_error (querySalesforce_try jwt_executeSalesforceQuery p up w)"

definition rt_querySalesforce :: "payload \<Rightarrow> upstream \<Rightarrow> world \<Rightarrow> query_result outcome \<times> world" where
  "rt_querySalesforce p up w = catch_error (querySalesforce_try rt_executeSalesforceQuery p up w)"

section \<open>The token cache under concurrent callers\<close>

text \<open>
  JavaScript runs each piece of code between two \<open>await\<close>s to its end before anything
  else runs. The process is therefore a state machine whose steps are those pieces: a
  caller entering \<open>getSalesforceAccessToken\<close>, the answer to a token request arriving, the
  one-second timer of a retry firing, time passing, and a disconnect. Each run of
  \<open>reauthenticate(2)\<close> or \<open>refreshAccessToken(2)\<close> that a caller starts is a \<open>run\<close>; the
  state keeps all of them, so that two runs in flight at once can be told from one.
  \<open>tokenPromise\<close> points at a run. The settlement of a run and the \<open>finally\<close> of the caller
  that started it are one step: a caller entering between the two would find the settled
  promise or the fresh cache entry and get the same answer.
\<close>

datatype variant = SignedAssertion | RefreshToken

text \<open>
  A run is awaiting the answer to the token request of its attempt with \<open>retries\<close> left,
  or pausing before the attempt with \<open>retries\<close> left, or settled.
\<close>

datatype run_state = AwaitingResponse nat | Pausing nat | Settled "auth outcome"

record loop_state =
  l_env :: environment
  l_cache :: "cached_token option"
  l_promise :: "nat option"
  l_now :: nat
  l_runs :: "run_state list"
  l_waiting :: "(nat \<times> nat) list"
  l_answers :: "(nat \<times> auth outcome) list"
  l_requests :: "request list"

datatype event =
    Get nat
  | TokenResponse nat "auth fetched"
  | TimerFired nat
  | Tick nat
  | Disconnect

text \<open>
  \<open>authenticateWithJwt\<close> up to its \<open>await api.fetch\<close>: the token request, or the error
  thrown before any request is made.
\<close>

definition jwt_prepare :: "upstream \<Rightarrow> environment \<Rightarrow> nat \<Rightarrow> error + request" where
  "jwt_prepare up e t =
    (case getJwtCredentials e of
       Inl err \<Rightarrow> Inl err
     | Inr c \<Rightarrow>
        (let loginUrl = getLoginUrl e;
             tokenEndpoint = loginUrl @ ''/services/oauth2/token'';
             payload = \<lparr> iss = clientId c, sub = username c, aud = loginUrl,
                         exp = t div 1000 + 180 \<rparr>
         in case jwt_sign up payload (privateKey c) of
              Inl err \<Rightarrow> Inl err
            | Inr jwtToken \<Rightarrow>
               Inr (TokenRequest tokenEndpoint
                      [(''grant_type'', ''urn:ietf:params:oauth:grant-type:jwt-bearer''),
                       (''assertion'', jwtToken)])))"

text \<open>\<open>authenticateWithJwt\<close> from the answer on.\<close>

definition jwt_response :: "auth fetched \<Rightarrow> error + auth" where
  "jwt_response f =
    (case f of
       Rejected e \<Rightarrow> Inl e
     | Responded r \<Rightarrow>
        if \<not> ok r then Inl (Error (body_text r))
        else (case body_json r of
                Inl e \<Rightarrow> Inl e
              | Inr a \<Rightarrow> Inr \<lparr> access_token = access_token a, instance_url = instance_url a \<rparr>))"

text \<open>The token request of \<open>refreshAccessToken\<close>.\<close>

definition rt_request :: "environment \<Rightarrow> request" where
  "rt_request e =
    TokenRequest (env_or (e ''SALESFORCE_LOGIN_URL'') ''https://login.salesforce.com''
                  @ ''/services/oauth2/token'')
      [(''grant_type'', ''refresh_token''),
       (''client_id'', env_str (e ''SALESFORCE_CLIENT_ID'')),
       (''client_secret'', env_str (e ''SALESFORCE_CLIENT_SECRET'')),
       (''refresh_token'', env_str (e ''SALESFORCE_REFRESH_TOKEN''))]"

text \<open>
  Run \<open>i\<close> settles with \<open>res\<close>: every caller awaiting it receives \<open>res\<close>, and the \<open>finally\<close>
  of the caller that started it sets \<open>tokenPromise = null\<close>.
\<close>

definition settle :: "nat \<Rightarrow> auth outcome \<Rightarrow> loop_state \<Rightarrow> loop_state" where
  "settle i res s =
    s\<lparr> l_runs := (l_runs s)[i := Settled res],
       l_answers := l_answers s @ map (\<lambda>(c, j). (c, res)) (filter (\<lambda>(c, j). j = i) (l_waiting s)),
       l_waiting := filter (\<lambda>(c, j). j \<noteq> i) (l_waiting s),
       l_promise := None \<rparr>"

text \<open>The \<open>catch\<close> of \<open>reauthenticate(retries)\<close>.\<close>

definition jwt_attempt_failed :: "nat \<Rightarrow> error \<Rightarrow> nat \<Rightarrow> loop_state \<Rightarrow> loop_state" where
  "jwt_attempt_failed retries e i s =
    (if retries > 0 then s\<lparr> l_runs := (l_runs s)[i := Pausing (retries - 1)] \<rparr>
     else settle i (Throw e) (s\<lparr> l_cache := None \<rparr>))"

text \<open>Run \<open>i\<close> enters its attempt with \<open>retries\<close> left and runs to the first \<open>await\<close>.\<close>

definition begin_attempt :: "variant \<Rightarrow> upstream \<Rightarrow> nat \<Rightarrow> nat \<Rightarrow> loop_state \<Rightarrow> loop_state" where
  "begin_attempt v up retries i s =
    (case v of
       SignedAssertion \<Rightarrow>
        (case jwt_prepare up (l_env s) (l_now s) of
           Inl e \<Rightarrow> jwt_attempt_failed retries e i s
         | Inr req \<Rightarrow> s\<lparr> l_runs := (l_runs s)[i := AwaitingResponse retries],
                         l_requests := l_requests s @ [req] \<rparr>)
     | RefreshToken \<Rightarrow>
        s\<lparr> l_runs := (l_runs s)[i := AwaitingResponse retries],
           l_requests := l_requests s @ [rt_request (l_env s)] \<rparr>)"

text \<open>The answer \<open>f\<close> reaches run \<open>i\<close>, which awaits it with \<open>retries\<close> left.\<close>

definition on_response :: "variant \<Rightarrow> nat \<Rightarrow> auth fetched \<Rightarrow> nat \<Rightarrow> loop_state \<Rightarrow> loop_state" where
  "on_response v retries f i s =
    (case v of
       SignedAssertion \<Rightarrow>
        (case jwt_response f of
           Inl e \<Rightarrow> jwt_attempt_failed retries e i s
         | Inr a \<Rightarrow> settle i (Return a) (s\<lparr> l_cache := Some (cache_entry a (l_now s)) \<rparr>))
     | RefreshToken \<Rightarrow>
        (case f of
           Rejected e \<Rightarrow> settle i (Throw e) s
         | Responded r \<Rightarrow>
            if \<not> ok r then
              (if retries > 0 \<and> status r = 400 \<and> str_includes (body_text r) ''retry your request''
               then s\<lparr> l_runs := (l_runs s)[i := Pausing (retries - 1)] \<rparr>
               else settle i (Throw (Error (''Salesforce Auth Failed: '' @ body_text r))) s)
            else (case body_json r of
                    Inl e \<Rightarrow> settle i (Throw e) s
                  | Inr a \<Rightarrow>
                     settle i (Return \<lparr> access_token = access_token a,
                                        instance_url = instance_url a \<rparr>)
                       (s\<lparr> l_cache := Some (cache_entry a (l_now s)) \<rparr>))))"

text \<open>
  One step. \<open>Get c\<close> is caller \<open>c\<close> running \<open>getSalesforceAccessToken\<close> to its first
  \<open>await\<close>: answered from the cache, or attached to the run \<open>tokenPromise\<close> points at, or
  starting a run of its own. An event for a run that is not in the state it addresses
  changes nothing.
\<close>

definition step :: "variant \<Rightarrow> upstream \<Rightarrow> loop_state \<Rightarrow> event \<Rightarrow> loop_state" where
  "step v up s ev =
    (case ev of
       Get c \<Rightarrow>
        (case fresh_entry (l_cache s) (l_now s) of
           Some tok \<Rightarrow> s\<lparr> l_answers := l_answers s @ [(c, Return (cached_auth tok))] \<rparr>
         | None \<Rightarrow>
            (case l_promise s of
               Some i \<Rightarrow> s\<lparr> l_waiting := l_waiting s @ [(c, i)] \<rparr>
             | None \<Rightarrow>
                (let i = length (l_runs s)
                 in begin_attempt v up 2 i
                      (s\<lparr> l_runs := l_runs s @ [Pausing 2],
                          l_promise := Some i,
                          l_waiting := l_waiting s @ [(c, i)] \<rparr>))))
     | TokenResponse i f \<Rightarrow>
        (if i < length (l_runs s)
         then (case l_runs s ! i of
                 AwaitingResponse retries \<Rightarrow> on_response v retries f i s
               | Pausing retries \<Rightarrow> s
               | Settled res \<Rightarrow> s)
         else s)
     | TimerFired i \<Rightarrow>
        (if i < length (l_runs s)
         then (case l_runs s ! i of
                 Pausing retries \<Rightarrow> begin_attempt v up retries i s
               | AwaitingResponse retries \<Rightarrow> s
               | Settled res \<Rightarrow> s)
         else s)
     | Tick d \<Rightarrow> s\<lparr> l_now := l_now s + d \<rparr>
     | Disconnect \<Rightarrow> s\<lparr> l_cache := None \<rparr>)"

definition run_events :: "variant \<Rightarrow> upstream \<Rightarrow> loop_state \<Rightarrow> event list \<Rightarrow> loop_state" where
  "run_events v up s evs = foldl (step v up) s evs"

text \<open>The callers that enter during a list of events, in order.\<close>

fun callers :: "event list \<Rightarrow> nat list" where
  "callers [] = []"
| "callers (Get c # evs) = c # callers evs"
| "callers (ev # evs) = callers evs"

text \<open>No run is in flight: every run has settled and \<open>tokenPromise\<close> is null.\<close>

definition is_settled :: "run_state \<Rightarrow> bool" where
  "is_settled r = (case r of Settled res \<Rightarrow> True | AwaitingResponse n \<Rightarrow> False | Pausing n \<Rightarrow> False)"

definition quiescent :: "loop_state \<Rightarrow> bool" where
  "quiescent s = (l_promise s = None \<and> l_waiting s = [] \<and> list_all is_settled (l_runs s))"

section \<open>Properties and scenarios\<close>



text \<open>
  How the query language reads a string literal from just after its opening quote: a
  backslash takes the next character with it, and the first quote not taken so closes
  the literal. The result is the text left after the closing quote, if the literal closes.
\<close>

fun literal_rest :: "string \<Rightarrow> string option" where
  "literal_rest [] = None"
| "literal_rest (c # cs) =
     (if c = quote then Some cs
      else if c = backslash then (case cs of [] \<Rightarrow> None | d # ds \<Rightarrow> literal_rest ds)
      else literal_rest cs)"


text \<open>The credentials the signed-assertion variant requires, and the network calls of a log.\<close>

definition jwt_required :: "string list" where
  "jwt_required = [''SALESFORCE_CLIENT_ID'', ''SALESFORCE_USERNAME'', ''SALESFORCE_JWT_PRIVATE_KEY'']"

fun is_fetch :: "effect \<Rightarrow> bool" where
  "is_fetch (Fetch req) = True"
| "is_fetch (Sleep ms) = False"

definition fetches :: "world \<Rightarrow> effect list" where
  "fetches w = filter is_fetch (log w)"

text \<open>
  The effects of a run of attempts: what each attempt does, with the one-second pause
  between an attempt and the next.
\<close>

fun with_pauses :: "effect list list \<Rightarrow> effect list" where
  "with_pauses [] = []"
| "with_pauses [a] = a"
| "with_pauses (a # b # r) = a @ Sleep 1000 # with_pauses (b # r)"

text \<open>
  The failure the specification calls transient: an HTTP 400 whose body contains the
  marker \<open>retry your request\<close>.
\<close>

definition transient :: "auth fetched \<Rightarrow> bool" where
  "transient f =
    (case f of
       Rejected e \<Rightarrow> False
     | Responded r \<Rightarrow> status r = 400 \<and> str_includes (body_text r) ''retry your request'')"

text \<open>
  The number of retries a run of the refresh-token variant makes when \<open>r\<close> retries are
  allowed and its first request is the effect number \<open>n\<close>: one for each transient answer
  in a row, the pause and the next request being the two effects that follow.
\<close>

fun retries_used :: "nat \<Rightarrow> upstream \<Rightarrow> nat \<Rightarrow> request \<Rightarrow> nat" where
  "retries_used 0 up n req = 0"
| "retries_used (Suc r) up n req =
     (if transient (snd (token_endpoint up n req)) then Suc (retries_used r up (n + 2) req)
      else 0)"

text \<open>
  The error the refresh-token variant observes in an answer to its token request, if the
  answer is a failure: the network error, the HTTP failure, or the malformed body.
\<close>

definition rt_failure :: "auth fetched \<Rightarrow> error option" where
  "rt_failure f =
    (case f of
       Rejected e \<Rightarrow> Some e
     | Responded r \<Rightarrow>
        if \<not> ok r then Some (Error (''Salesforce Auth Failed: '' @ body_text r))
        else (case body_json r of Inl e \<Rightarrow> Some e | Inr a \<Rightarrow> None))"




fun is_query :: "effect \<Rightarrow> bool" where
  "is_query (Fetch (QueryRequest url soql headers)) = True"
| "is_query (Fetch (TokenRequest url params)) = False"
| "is_query (Sleep ms) = False"

definition queries :: "world \<Rightarrow> effect list" where
  "queries w = filter is_query (log w)"

text \<open>
  The window in which callers are concurrent: caller \<open>k\<close> found the cache stale and started
  run \<open>n0\<close>, the callers \<open>cs\<close> have entered since, and none of them has been answered.
  \<open>a0\<close> are the answers given before the window and \<open>q0\<close> is the number of token requests
  made before it; the run may still make as many requests as it has attempts left.
\<close>

definition in_window ::
  "nat \<Rightarrow> (nat \<times> auth outcome) list \<Rightarrow> nat \<Rightarrow> nat list \<Rightarrow> loop_state \<Rightarrow> bool" where
  "in_window n0 a0 q0 cs s =
    (l_promise s = Some n0 \<and> length (l_runs s) = Suc n0 \<and>
     list_all is_settled (take n0 (l_runs s)) \<and>
     (case l_runs s ! n0 of
        AwaitingResponse r \<Rightarrow> length (l_requests s) + r \<le> q0 + 3
      | Pausing r \<Rightarrow> length (l_requests s) + Suc r \<le> q0 + 3
      | Settled res \<Rightarrow> False) \<and>
     l_waiting s = map (\<lambda>c. (c, n0)) cs \<and> cs \<noteq> [] \<and> l_answers s = a0 \<and>
     fresh_entry (l_cache s) (l_now s) = None)"

text \<open>
  The window has closed: the run has settled, every caller of the window has received the
  same result, and no refresh is in flight.
\<close>

definition answered ::
  "nat \<Rightarrow> (nat \<times> auth outcome) list \<Rightarrow> nat \<Rightarrow> nat list \<Rightarrow> loop_state \<Rightarrow> bool" where
  "answered n0 a0 q0 cs s =
    (\<exists>res. res \<noteq> Join \<and> l_answers s = a0 @ map (\<lambda>c. (c, res)) cs \<and> quiescent s \<and>
           length (l_runs s) = Suc n0 \<and> length (l_requests s) \<le> q0 + 3)"

text \<open>
  The two models side by side. \<open>big_run\<close> is the sequential run of the retry policy of a
  variant; \<open>first_request\<close>, \<open>retried\<close>, \<open>verdict\<close> and \<open>cache_after\<close> name, for both
  variants at once, the request an attempt sends, whether an answer is retried, the result
  when it is not, and the cache that result leaves. \<open>script\<close> lists the events the
  upstream system causes for a run that enters its attempt in the world \<open>w\<close>: for each
  attempt the time the answer takes and the answer, and before each retry the second that
  passes and the timer. \<open>matches\<close> relates a state of the event loop to a world.
\<close>

definition big_run :: "variant \<Rightarrow> nat \<Rightarrow> upstream \<Rightarrow> world \<Rightarrow> auth outcome \<times> world" where
  "big_run v retries up w =
    (case v of
       SignedAssertion \<Rightarrow> reauthenticate retries up w
     | RefreshToken \<Rightarrow> refreshAccessToken retries up w)"

definition first_request :: "variant \<Rightarrow> upstream \<Rightarrow> environment \<Rightarrow> nat \<Rightarrow> error + request" where
  "first_request v up e t =
    (case v of
       SignedAssertion \<Rightarrow> jwt_prepare up e t
     | RefreshToken \<Rightarrow> Inr (rt_request e))"

definition retried :: "variant \<Rightarrow> auth fetched \<Rightarrow> bool" where
  "retried v f =
    (case v of
       SignedAssertion \<Rightarrow> (case jwt_response f of Inl e \<Rightarrow> True | Inr a \<Rightarrow> False)
     | RefreshToken \<Rightarrow> transient f)"

definition verdict :: "variant \<Rightarrow> auth fetched \<Rightarrow> auth outcome" where
  "verdict v f =
    (case v of
       SignedAssertion \<Rightarrow> (case jwt_response f of Inl e \<Rightarrow> Throw e | Inr a \<Rightarrow> Return a)
     | RefreshToken \<Rightarrow>
        (case f of
           Rejected e \<Rightarrow> Throw e
         | Responded r \<Rightarrow>
            if \<not> ok r then Throw (Error (''Salesforce Auth Failed: '' @ body_text r))
            else (case body_json r of
                    Inl e \<Rightarrow> Throw e
                  | Inr a \<Rightarrow> Return \<lparr> access_token = access_token a,
                                       instance_url = instance_url a \<rparr>)))"

definition cache_after ::
  "variant \<Rightarrow> auth outcome \<Rightarrow> cached_token option \<Rightarrow> nat \<Rightarrow> cached_token option" where
  "cache_after v res cache t =
    (case res of
       Return a \<Rightarrow> Some (cache_entry a t)
     | Throw e \<Rightarrow> (case v of SignedAssertion \<Rightarrow> None | RefreshToken \<Rightarrow> cache)
     | Join \<Rightarrow> cache)"

fun script :: "variant \<Rightarrow> nat \<Rightarrow> upstream \<Rightarrow> world \<Rightarrow> nat \<Rightarrow> event list" where
  "script v retries up w i =
    (case first_request v up (env w) (now w) of
       Inl e \<Rightarrow>
        if retries > 0
        then Tick 1000 # TimerFired i # script v (retries - 1) up (sleep 1000 w) i
        else []
     | Inr req \<Rightarrow>
        (case api_fetch_token up req w of
           (f, w1) \<Rightarrow>
            Tick (now w1 - now w) # TokenResponse i f #
            (if retries > 0 \<and> retried v f
             then Tick 1000 # TimerFired i # script v (retries - 1) up (sleep 1000 w1) i
             else [])))"

declare script.simps [simp del]

definition matches :: "loop_state \<Rightarrow> world \<Rightarrow> bool" where
  "matches s w = (l_env s = env w \<and> l_cache s = tokenCache w \<and> l_now s = now w)"

text \<open>Scenarios: an upstream system that accepts every request, and a process just started.\<close>

definition demo_auth :: auth where
  "demo_auth = \<lparr> access_token = ''T1'', instance_url = ''https://acme.my.salesforce.com'' \<rparr>"

definition full_env :: environment where
  "full_env =
    [''SALESFORCE_CLIENT_ID'' \<mapsto> ''client'', ''SALESFORCE_USERNAME'' \<mapsto> ''user@acme.com'',
     ''SALESFORCE_JWT_PRIVATE_KEY'' \<mapsto> ''key'', ''SALESFORCE_CLIENT_SECRET'' \<mapsto> ''secret'',
     ''SALESFORCE_REFRESH_TOKEN'' \<mapsto> ''refresh'']"

definition up_ok :: upstream where
  "up_ok =
    \<lparr> token_endpoint =
        (\<lambda>n req. (120, Responded \<lparr> status = 200, body_text = [], body_json = Inr demo_auth \<rparr>)),
      data_endpoint =
        (\<lambda>n req. (80, Responded \<lparr> status = 200, body_text = [],
                     body_json = Inr (JObj [(''totalSize'', JNum 0), (''done'', JBool True)]) \<rparr>)),
      jwt_sign = (\<lambda>p k. Inr ''assertion'') \<rparr>"

definition cold_world :: world where
  "cold_world = \<lparr> env = full_env, tokenCache = None, tokenPromise = False, now = 1000000, log = [] \<rparr>"

text \<open>The same process with only the client identifier configured, and with nothing configured.\<close>

definition half_world :: world where
  "half_world = cold_world\<lparr> env := [''SALESFORCE_CLIENT_ID'' \<mapsto> ''client''] \<rparr>"

definition bare_world :: world where
  "bare_world = cold_world\<lparr> env := Map.empty \<rparr>"

definition account_payload :: payload where
  "account_payload =
    \<lparr> objectType = ''Account'', search = None, filters = None, limit = None, offset = None \<rparr>"

text \<open>
  A token endpoint that fails every request with an HTTP 500, and one that fails the
  first request of the process with the transient error and accepts the later ones.
\<close>

definition up_500 :: upstream where
  "up_500 =
    up_ok\<lparr> token_endpoint :=
             (\<lambda>n req. (50, Responded \<lparr> status = 500, body_text = ''Internal Server Error'',
                                       body_json = Inl (FetchError ''Unexpected token'') \<rparr>)) \<rparr>"

definition up_flaky :: upstream where
  "up_flaky =
    up_ok\<lparr> token_endpoint :=
             (\<lambda>n req. if n = 0
                        then (50, Responded \<lparr> status = 400,
                                              body_text = ''unknown_error: retry your request'',
                                              body_json = Inl (FetchError ''Unexpected token'') \<rparr>)
                        else (120, Responded \<lparr> status = 200, body_text = [],
                                               body_json = Inr demo_auth \<rparr>)) \<rparr>"

text \<open>The process holding a token that expired, and holding one that is still fresh.\<close>

definition old_token :: cached_token where
  "old_token = \<lparr> access_token = ''T0'', instance_url = ''https://acme.my.salesforce.com'',
                 expiresAt = 900000 \<rparr>"

definition stale_world :: world where
  "stale_world = cold_world\<lparr> tokenCache := Some old_token \<rparr>"

definition warm_world :: world where
  "warm_world = cold_world\<lparr> tokenCache := Some (old_token\<lparr> expiresAt := 2000000 \<rparr>) \<rparr>"

text \<open>The token request of the signed-assertion variant in these scenarios.\<close>

definition demo_jwt_request :: request where
  "demo_jwt_request =
    TokenRequest ''https://login.salesforce.com/services/oauth2/token''
      [(''grant_type'', ''urn:ietf:params:oauth:grant-type:jwt-bearer''),
       (''assertion'', ''assertion'')]"






text \<open>
  The event loop of a process just started, and two answers of the token endpoint: the
  transient failure and a success.
\<close>

definition init_state :: loop_state where
  "init_state =
    \<lparr> l_env = full_env, l_cache = None, l_promise = None, l_now = 1000000, l_runs = [],
      l_waiting = [], l_answers = [], l_requests = [] \<rparr>"

definition transient_answer :: "auth fetched" where
  "transient_answer =
    Responded \<lparr> status = 400, body_text = ''unknown_error: retry your request'',
                body_json = Inl (FetchError ''Unexpected token'') \<rparr>"

definition ok_answer :: "auth fetched" where
  "ok_answer = Responded \<lparr> status = 200, body_text = [], body_json = Inr demo_auth \<rparr>"

section \<open>Query construction: results\<close>




text \<open>
  A name that is neither configured nor found on the prototype is refused as unsupported,
  and any name that is not configured is refused with the process left as it was: no
  network call, no change of the cache.
\<close>

lemma unsupported_object:
  assumes "lookup_config (objectType p) = Absent"
  shows "querySalesforce_try ex p up w = (Throw (Error (''Unsupported object: '' @ objectType p)), w)"
  using assms by (simp add: querySalesforce_try_def Let_def)

lemma unconfigured_object_fails:
  assumes "map_of OBJECT_CONFIG (objectType p) = None"
  shows "\<exists>m. catch_error (querySalesforce_try ex p up w) = (Return (QueryError m), w)"
  using assms
  by (auto simp: querySalesforce_try_def catch_error_def lookup_config_def Let_def)

text \<open>
  Claim C6, at the object type \<open>constructor\<close>. The name is not configured, yet the lookup
  finds the inherited property, the guard \<open>if (!config)\<close> lets it pass, and the resolver
  answers with the type error of \<open>config.fields.join\<close> instead of the unsupported-object
  error. No network call is made.
\<close>

theorem querySalesforce_constructor:
  "map_of OBJECT_CONFIG ''constructor'' = None \<and>
   jwt_querySalesforce (account_payload\<lparr> objectType := ''constructor'' \<rparr>) up w
     = (Return (QueryError (''Cannot read properties of undefined (reading '' @ [quote] @ ''join''
                            @ [quote] @ '')'')), w) \<and>
   rt_querySalesforce (account_payload\<lparr> objectType := ''constructor'' \<rparr>) up w
     = (Return (QueryError (''Cannot read properties of undefined (reading '' @ [quote] @ ''join''
                            @ [quote] @ '')'')), w) \<and>
   ''Cannot read properties of undefined (reading '' @ [quote] @ ''join'' @ [quote] @ '')''
     \<noteq> ''Unsupported object: '' @ ''constructor''"
  by (simp add: jwt_querySalesforce_def rt_querySalesforce_def querySalesforce_try_def
      catch_error_def lookup_config_def OBJECT_CONFIG_def object_prototype_keys_def
      account_payload_def)

text \<open>Every quote of the input comes out with a backslash before it.\<close>

lemma escape_quotes_concat:
  "escape_quotes s = concat (map (\<lambda>c. if c = quote then [backslash, quote] else [c]) s)"
  by (induction s) auto

text \<open>An input without a backslash cannot close the literal it is put in.\<close>

lemma literal_rest_escape:
  "backslash \<notin> set s \<Longrightarrow> literal_rest (escape_quotes s @ quote # rest) = Some rest"
  by (induction s) (auto simp: quote_def backslash_def)

text \<open>
  Claim C7, at the search term made of a backslash and a quote. The quote is escaped, the
  backslash is not: in the clause the two backslashes read as one escaped backslash and
  the quote after them closes the literal, leaving \<open>%'\<close> outside it.
\<close>

theorem escape_quotes_backslash_quote:
  "escape_quotes [backslash, quote] = [backslash, backslash, quote] \<and>
   search_clause ''Name'' [backslash, quote]
     = ''Name LIKE '' @ [quote] @ ''%'' @ [backslash, backslash, quote] @ ''%'' @ [quote] \<and>
   literal_rest (''%'' @ escape_quotes [backslash, quote] @ ''%'' @ [quote]) = Some (''%'' @ [quote])"
  by (simp add: search_clause_def quote_def backslash_def)

section \<open>The resolver's defaults and the shape of its answer\<close>






lemmas scenario_defs =
  account_payload_def up_ok_def cold_world_def half_world_def bare_world_def full_env_def demo_auth_def
  up_500_def up_flaky_def old_token_def stale_world_def warm_world_def demo_jwt_request_def

lemmas run_defs =
  querySalesforce_try_def catch_error_def lookup_config_def OBJECT_CONFIG_def
  object_prototype_keys_def jwt_executeSalesforceQuery_def rt_executeSalesforceQuery_def
  buildSalesforceHeaders_def jwt_getSalesforceAccessToken_def rt_getSalesforceAccessToken_def
  fresh_token_def fresh_entry_def reauthenticate.simps refreshAccessToken.simps
  authenticateWithJwt_def getJwtCredentials_def getLoginUrl_def env_or_def env_str_def
  falsy_var_def env_val_def api_fetch_token_def api_fetch_data_def ok_def json_outcome_def
  cache_entry_def cached_auth_def js_or_def default_to_def sleep_def Let_def




section \<open>Credential loading\<close>

lemma fetches_sleep [simp]: "fetches (sleep ms w) = fetches w"
  by (simp add: fetches_def sleep_def)

lemma env_sleep [simp]: "env (sleep ms w) = env w"
  by (simp add: sleep_def)

lemma getJwtCredentials_missing:
  assumes "filter (\<lambda>k. falsy_var (e k)) jwt_required \<noteq> []"
  shows "getJwtCredentials e
         = Inl (Error (''Missing required Forge variables: ''
                       @ join '', '' (filter (\<lambda>k. falsy_var (e k)) jwt_required)))"
  using assms
  by (cases "falsy_var (e ''SALESFORCE_CLIENT_ID'')";
      cases "falsy_var (e ''SALESFORCE_USERNAME'')";
      cases "falsy_var (e ''SALESFORCE_JWT_PRIVATE_KEY'')")
     (simp_all add: getJwtCredentials_def jwt_required_def Let_def)

lemma authenticateWithJwt_no_credentials:
  assumes "getJwtCredentials (env w) = Inl e"
  shows "authenticateWithJwt up w = (Throw e, w)"
  using assms by (simp add: authenticateWithJwt_def)

lemma reauthenticate_no_credentials:
  assumes "getJwtCredentials (env w) = Inl e"
  shows "\<exists>w'. reauthenticate retries up w = (Throw e, w') \<and> fetches w' = fetches w"
  using assms
proof (induction retries arbitrary: w)
  case 0
  then show ?case
    by (simp add: reauthenticate.simps [of 0] authenticateWithJwt_no_credentials fetches_def)
next
  case (Suc n)
  from Suc.prems have "getJwtCredentials (env (sleep 1000 w)) = Inl e" by simp
  from Suc.IH [OF this] obtain w' where
    "reauthenticate n up (sleep 1000 w) = (Throw e, w')" "fetches w' = fetches w"
    by auto
  with Suc.prems show ?case
    by (simp add: reauthenticate.simps [of "Suc n"] authenticateWithJwt_no_credentials)
qed

text \<open>
  Claim C5, as amended. In the signed-assertion variant, when one or more of the three
  required variables is unset (or empty), credential loading fails with one error whose
  message lists every absent variable, in the order client identifier, user name, private
  key; the authentication attempt throws that error with the process unchanged, and a
  \<open>getSalesforceAccessToken\<close> that has to authenticate throws it after its retries without
  a single network call.
\<close>

theorem jwt_missing_credentials_reported:
  assumes "missing = filter (\<lambda>k. falsy_var (env w k)) jwt_required"
      and "missing \<noteq> []"
      and "fresh_token w = None" and "\<not> tokenPromise w"
  shows "getJwtCredentials (env w)
           = Inl (Error (''Missing required Forge variables: '' @ join '', '' missing)) \<and>
         authenticateWithJwt up w
           = (Throw (Error (''Missing required Forge variables: '' @ join '', '' missing)), w) \<and>
         (\<exists>w'. jwt_getSalesforceAccessToken up w
                  = (Throw (Error (''Missing required Forge variables: '' @ join '', '' missing)), w')
                \<and> fetches w' = fetches w)"
proof -
  let ?e = "Error (''Missing required Forge variables: '' @ join '', '' missing)"
  have c: "getJwtCredentials (env w) = Inl ?e"
    using assms(1,2) getJwtCredentials_missing [of "env w"] by simp
  then have a: "authenticateWithJwt up w = (Throw ?e, w)"
    by (rule authenticateWithJwt_no_credentials)
  from c have "getJwtCredentials (env (w\<lparr> tokenPromise := True \<rparr>)) = Inl ?e" by simp
  from reauthenticate_no_credentials [OF this, of 2 up] obtain w1 where
    r: "reauthenticate 2 up (w\<lparr> tokenPromise := True \<rparr>) = (Throw ?e, w1)"
       "fetches w1 = fetches (w\<lparr> tokenPromise := True \<rparr>)"
    by auto
  have "jwt_getSalesforceAccessToken up w = (Throw ?e, w1\<lparr> tokenPromise := False \<rparr>)"
    using assms(3,4) r(1) by (simp add: jwt_getSalesforceAccessToken_def)
  moreover have "fetches (w1\<lparr> tokenPromise := False \<rparr>) = fetches w"
    using r(2) by (simp add: fetches_def)
  ultimately show ?thesis using c a by blast
qed

theorem jwt_missing_credentials_reported_witness:
  "[''SALESFORCE_USERNAME'', ''SALESFORCE_JWT_PRIVATE_KEY'']
     = filter (\<lambda>k. falsy_var (env half_world k)) jwt_required \<and>
   getJwtCredentials (env half_world)
     = Inl (Error ''Missing required Forge variables: SALESFORCE_USERNAME, SALESFORCE_JWT_PRIVATE_KEY'') \<and>
   (\<exists>w'. jwt_getSalesforceAccessToken up_ok half_world
            = (Throw (Error ''Missing required Forge variables: SALESFORCE_USERNAME, SALESFORCE_JWT_PRIVATE_KEY''), w')
          \<and> fetches w' = [])"
proof -
  have m: "[''SALESFORCE_USERNAME'', ''SALESFORCE_JWT_PRIVATE_KEY'']
             = filter (\<lambda>k. falsy_var (env half_world k)) jwt_required"
    by (simp add: scenario_defs jwt_required_def falsy_var_def)
  have n: "[''SALESFORCE_USERNAME'', ''SALESFORCE_JWT_PRIVATE_KEY''] \<noteq> ([] :: string list)" by simp
  have f: "fresh_token half_world = None"
    by (simp add: scenario_defs fresh_token_def fresh_entry_def)
  have p: "\<not> tokenPromise half_world" by (simp add: scenario_defs)
  have l: "fetches half_world = []" by (simp add: scenario_defs fetches_def)
  from jwt_missing_credentials_reported [OF m n f p, of up_ok] l
  show ?thesis by (simp add: m [symmetric])
qed

text \<open>
  Claim C5 as stated fails in the refresh-token variant, which never validates its
  credentials: with none of them set it posts the token request, the absent values sent as
  the text \<open>undefined\<close>, and here obtains a token.
\<close>

theorem refresh_variant_skips_validation:
  "env bare_world ''SALESFORCE_CLIENT_ID'' = None \<and>
   env bare_world ''SALESFORCE_CLIENT_SECRET'' = None \<and>
   env bare_world ''SALESFORCE_REFRESH_TOKEN'' = None \<and>
   fst (rt_getSalesforceAccessToken up_ok bare_world) = Return demo_auth \<and>
   log (snd (rt_getSalesforceAccessToken up_ok bare_world))
     = [Fetch (TokenRequest ''https://login.salesforce.com/services/oauth2/token''
                 [(''grant_type'', ''refresh_token''), (''client_id'', ''undefined''),
                  (''client_secret'', ''undefined''), (''refresh_token'', ''undefined'')])]"
  by (simp add: run_defs scenario_defs)

section \<open>Authentication runs: effects, failures, successes\<close>

lemma with_pauses_Cons: "as \<noteq> [] \<Longrightarrow> with_pauses (a # as) = a @ Sleep 1000 # with_pauses as"
  by (cases as) auto

lemma api_fetch_token_log:
  "api_fetch_token up req w = (f, w1) \<Longrightarrow>
     log w1 = log w @ [Fetch req] \<and> env w1 = env w \<and> tokenCache w1 = tokenCache w \<and>
     tokenPromise w1 = tokenPromise w \<and> now w \<le> now w1 \<and>
     f = snd (token_endpoint up (length (log w)) req)"
  by (auto simp: api_fetch_token_def Let_def split: prod.splits)

lemma sleep_simps [simp]:
  "log (sleep ms w) = log w @ [Sleep ms]" "tokenCache (sleep ms w) = tokenCache w"
  "tokenPromise (sleep ms w) = tokenPromise w" "now (sleep ms w) = now w + ms"
  by (simp_all add: sleep_def)

lemma refresh_request: 
  "TokenRequest (env_or (env w ''SALESFORCE_LOGIN_URL'') ''https://login.salesforce.com'' @ ''/services/oauth2/token'')
      [(''grant_type'', ''refresh_token''),
       (''client_id'', env_str (env w ''SALESFORCE_CLIENT_ID'')),
       (''client_secret'', env_str (env w ''SALESFORCE_CLIENT_SECRET'')),
       (''refresh_token'', env_str (env w ''SALESFORCE_REFRESH_TOKEN''))] = rt_request (env w)"
  by (simp add: rt_request_def)

text \<open>One call of refreshAccessToken, unfolded once, in terms of the answer to its request.\<close>

lemma refreshAccessToken_unfold:
  "refreshAccessToken retries up w =
    (case api_fetch_token up (rt_request (env w)) w of
       (f, w1) \<Rightarrow>
         if retries > 0 \<and> transient f then refreshAccessToken (retries - 1) up (sleep 1000 w1)
         else (case f of
                 Rejected e \<Rightarrow> (Throw e, w1)
               | Responded r \<Rightarrow>
                   if \<not> ok r then (Throw (Error (''Salesforce Auth Failed: '' @ body_text r)), w1)
                   else (case body_json r of
                           Inl e \<Rightarrow> (Throw e, w1)
                         | Inr a \<Rightarrow> (Return \<lparr> access_token = access_token a, instance_url = instance_url a \<rparr>,
                                     w1\<lparr> tokenCache := Some (cache_entry a (now w1)) \<rparr>))))"
  by (subst refreshAccessToken.simps)
     (auto simp: Let_def refresh_request transient_def ok_def split: prod.splits fetched.splits sum.splits)

lemma rt_log:
  "\<exists>n\<le>retries. log (snd (refreshAccessToken retries up w))
      = log w @ with_pauses (replicate (Suc n) [Fetch (rt_request (env w))])"
proof (induction retries arbitrary: w)
  case 0
  obtain f w1 where f: "api_fetch_token up (rt_request (env w)) w = (f, w1)" by force
  from api_fetch_token_log [OF f] show ?case
    by (subst refreshAccessToken_unfold) (auto simp: f split: fetched.splits sum.splits)
next
  case (Suc k)
  obtain f w1 where f: "api_fetch_token up (rt_request (env w)) w = (f, w1)" by force
  note l = api_fetch_token_log [OF f]
  show ?case
  proof (cases "transient f")
    case True
    from Suc.IH [of "sleep 1000 w1"] obtain n where
      n: "n \<le> k" "log (snd (refreshAccessToken k up (sleep 1000 w1)))
            = log (sleep 1000 w1) @ with_pauses (replicate (Suc n) [Fetch (rt_request (env (sleep 1000 w1)))])"
      by blast
    have "log (snd (refreshAccessToken (Suc k) up w))
           = log w @ with_pauses (replicate (Suc (Suc n)) [Fetch (rt_request (env w))])"
      using True n(2) l by (subst refreshAccessToken_unfold) (simp add: f)
    with n(1) show ?thesis by (intro exI [of _ "Suc n"]) simp
  next
    case False
    have "log (snd (refreshAccessToken (Suc k) up w)) = log w @ with_pauses (replicate (Suc 0) [Fetch (rt_request (env w))])"
      using False l by (subst refreshAccessToken_unfold) (auto simp: f split: fetched.splits sum.splits)
    then show ?thesis by (intro exI [of _ 0]) simp
  qed
qed

lemma rt_not_transient:
  assumes "\<not> transient (snd (token_endpoint up (length (log w)) (rt_request (env w))))"
  shows "log (snd (refreshAccessToken retries up w)) = log w @ [Fetch (rt_request (env w))]"
proof -
  obtain f w1 where f: "api_fetch_token up (rt_request (env w)) w = (f, w1)" by force
  note l = api_fetch_token_log [OF f]
  with assms have "\<not> transient f" by simp
  then show ?thesis using l
    by (subst refreshAccessToken_unfold) (auto simp: f split: fetched.splits sum.splits)
qed


lemma authenticateWithJwt_split:
  "authenticateWithJwt up w =
    (case jwt_prepare up (env w) (now w) of
       Inl e \<Rightarrow> (Throw e, w)
     | Inr req \<Rightarrow>
        (case api_fetch_token up req w of
           (f, w1) \<Rightarrow> (case jwt_response f of Inl e \<Rightarrow> (Throw e, w1) | Inr a \<Rightarrow> (Return a, w1))))"
  by (auto simp: authenticateWithJwt_def jwt_prepare_def jwt_response_def Let_def
      split: sum.splits prod.splits fetched.splits)

lemma authenticateWithJwt_effect:
  assumes "authenticateWithJwt up w = (r, w1)"
  shows "(log w1 = log w \<or> (\<exists>req. log w1 = log w @ [Fetch req])) \<and> r \<noteq> Join \<and>
         env w1 = env w \<and> tokenCache w1 = tokenCache w \<and> tokenPromise w1 = tokenPromise w \<and>
         now w \<le> now w1"
proof (cases "jwt_prepare up (env w) (now w)")
  case (Inl e)
  with assms show ?thesis by (auto simp: authenticateWithJwt_split)
next
  case (Inr req)
  obtain f w2 where f: "api_fetch_token up req w = (f, w2)" by force
  from api_fetch_token_log [OF f] assms Inr show ?thesis
    by (auto simp: authenticateWithJwt_split f split: sum.splits)
qed

lemma jwt_log:
  "\<exists>as. as \<noteq> [] \<and> length as \<le> Suc retries \<and>
        list_all (\<lambda>a. a = [] \<or> (\<exists>req. a = [Fetch req])) as \<and>
        log (snd (reauthenticate retries up w)) = log w @ with_pauses as \<and>
        (\<forall>e. fst (reauthenticate retries up w) = Throw e \<longrightarrow> length as = Suc retries)"
proof (induction retries arbitrary: w)
  case 0
  obtain r w1 where a: "authenticateWithJwt up w = (r, w1)" by force
  from authenticateWithJwt_effect [OF a] obtain x where
    x: "x = [] \<or> (\<exists>req. x = [Fetch req])" "log w1 = log w @ x" "r \<noteq> Join" by auto
  have "log (snd (reauthenticate 0 up w)) = log w @ with_pauses [x]"
    using x(2,3) by (subst reauthenticate.simps) (cases r; simp add: a)
  with x(1) show ?case by (intro exI [of _ "[x]"]) auto
next
  case (Suc k)
  obtain r w1 where a: "authenticateWithJwt up w = (r, w1)" by force
  from authenticateWithJwt_effect [OF a] obtain x where
    x: "x = [] \<or> (\<exists>req. x = [Fetch req])" "log w1 = log w @ x" "r \<noteq> Join" by auto
  show ?case
  proof (cases r)
    case (Return v)
    have "log (snd (reauthenticate (Suc k) up w)) = log w @ with_pauses [x]"
         "\<And>e. fst (reauthenticate (Suc k) up w) \<noteq> Throw e"
      using x(2) Return by (subst reauthenticate.simps, simp add: a)+
    with x(1) show ?thesis by (intro exI [of _ "[x]"]) auto
  next
    case (Throw e)
    from Suc.IH [of "sleep 1000 w1"] obtain as where
      as: "as \<noteq> []" "length as \<le> Suc k" "list_all (\<lambda>a. a = [] \<or> (\<exists>req. a = [Fetch req])) as"
          "log (snd (reauthenticate k up (sleep 1000 w1))) = log (sleep 1000 w1) @ with_pauses as"
          "\<forall>e. fst (reauthenticate k up (sleep 1000 w1)) = Throw e \<longrightarrow> length as = Suc k"
      by blast
    have r: "reauthenticate (Suc k) up w = reauthenticate k up (sleep 1000 w1)"
      using Throw by (subst reauthenticate.simps) (simp add: a)
    have "log (snd (reauthenticate (Suc k) up w)) = log w @ with_pauses (x # as)"
      using as(1,4) x(2) by (simp add: r with_pauses_Cons)
    with as x(1) r show ?thesis by (intro exI [of _ "x # as"]) auto
  next
    case Join
    with x(3) show ?thesis by simp
  qed
qed

lemma reauthenticate_Throw:
  assumes "reauthenticate retries up w = (Throw e, w')"
  shows "tokenCache w' = None \<and> tokenPromise w' = tokenPromise w \<and>
         (\<exists>wl wl'. authenticateWithJwt up wl = (Throw e, wl') \<and> w' = wl'\<lparr> tokenCache := None \<rparr>)"
  using assms
proof (induction retries arbitrary: w)
  case 0
  obtain r w1 where a: "authenticateWithJwt up w = (r, w1)" by force
  from authenticateWithJwt_effect [OF a] have p: "tokenPromise w1 = tokenPromise w" by simp
  from 0 a have "r = Throw e" "w' = w1\<lparr> tokenCache := None \<rparr>"
    by (subst (asm) reauthenticate.simps, cases r; simp)+
  with a p show ?case by auto
next
  case (Suc k)
  obtain r w1 where a: "authenticateWithJwt up w = (r, w1)" by force
  from authenticateWithJwt_effect [OF a] have p: "tokenPromise w1 = tokenPromise w" by simp
  from Suc.prems a obtain e1 where "r = Throw e1" "reauthenticate k up (sleep 1000 w1) = (Throw e, w')"
    by (subst (asm) reauthenticate.simps, cases r; simp)
  from Suc.IH [OF this(2)] p show ?case by simp
qed

lemma reauthenticate_Return:
  assumes "reauthenticate retries up w = (Return a, w')"
  shows "tokenCache w' = Some (cache_entry a (now w')) \<and> tokenPromise w' = tokenPromise w"
  using assms
proof (induction retries arbitrary: w)
  case 0
  obtain r w1 where a: "authenticateWithJwt up w = (r, w1)" by force
  from authenticateWithJwt_effect [OF a] have p: "tokenPromise w1 = tokenPromise w" by simp
  from 0 a p show ?case
    by (subst (asm) reauthenticate.simps, cases r) auto
next
  case (Suc k)
  obtain r w1 where a: "authenticateWithJwt up w = (r, w1)" by force
  from authenticateWithJwt_effect [OF a] have p: "tokenPromise w1 = tokenPromise w" by simp
  show ?case
  proof (cases r)
    case (Return v)
    with Suc.prems a p show ?thesis by (subst (asm) reauthenticate.simps) auto
  next
    case (Throw e1)
    with Suc.prems a have "reauthenticate k up (sleep 1000 w1) = (Return a, w')"
      by (subst (asm) reauthenticate.simps) simp
    from Suc.IH [OF this] p show ?thesis by simp
  next
    case Join
    with Suc.prems a show ?thesis by (subst (asm) reauthenticate.simps) simp
  qed
qed

lemma refreshAccessToken_Throw:
  assumes "refreshAccessToken retries up w = (Throw e, w')"
  shows "tokenCache w' = tokenCache w \<and> tokenPromise w' = tokenPromise w \<and> now w \<le> now w' \<and>
         (\<exists>wl f. api_fetch_token up (rt_request (env w)) wl = (f, w') \<and> rt_failure f = Some e)"
  using assms
proof (induction retries arbitrary: w)
  case 0
  obtain f w1 where f: "api_fetch_token up (rt_request (env w)) w = (f, w1)" by force
  note l = api_fetch_token_log [OF f]
  from 0 have "w' = w1 \<and> rt_failure f = Some e"
    by (subst (asm) refreshAccessToken_unfold)
       (auto simp: f rt_failure_def split: fetched.splits sum.splits if_splits)
  with l f show ?case by auto
next
  case (Suc k)
  obtain f w1 where f: "api_fetch_token up (rt_request (env w)) w = (f, w1)" by force
  note l = api_fetch_token_log [OF f]
  show ?case
  proof (cases "transient f")
    case True
    with Suc.prems have "refreshAccessToken k up (sleep 1000 w1) = (Throw e, w')"
      by (subst (asm) refreshAccessToken_unfold) (simp add: f)
    from Suc.IH [OF this] l show ?thesis by auto
  next
    case False
    with Suc.prems have "w' = w1 \<and> rt_failure f = Some e"
      by (subst (asm) refreshAccessToken_unfold)
         (auto simp: f rt_failure_def split: fetched.splits sum.splits if_splits)
    with l f show ?thesis by auto
  qed
qed

lemma refreshAccessToken_Return:
  assumes "refreshAccessToken retries up w = (Return a, w')"
  shows "tokenCache w' = Some (cache_entry a (now w')) \<and> tokenPromise w' = tokenPromise w"
  using assms
proof (induction retries arbitrary: w)
  case 0
  obtain f w1 where f: "api_fetch_token up (rt_request (env w)) w = (f, w1)" by force
  note l = api_fetch_token_log [OF f]
  from 0 l show ?case
    by (subst (asm) refreshAccessToken_unfold)
       (auto simp: f cache_entry_def split: fetched.splits sum.splits if_splits)
next
  case (Suc k)
  obtain f w1 where f: "api_fetch_token up (rt_request (env w)) w = (f, w1)" by force
  note l = api_fetch_token_log [OF f]
  show ?case
  proof (cases "transient f")
    case True
    with Suc.prems have "refreshAccessToken k up (sleep 1000 w1) = (Return a, w')"
      by (subst (asm) refreshAccessToken_unfold) (simp add: f)
    from Suc.IH [OF this] l show ?thesis by auto
  next
    case False
    with Suc.prems l show ?thesis
      by (subst (asm) refreshAccessToken_unfold)
         (auto simp: f cache_entry_def split: fetched.splits sum.splits if_splits)
  qed
qed

lemma refreshAccessToken_not_Join: "fst (refreshAccessToken retries up w) \<noteq> Join"
proof (induction retries arbitrary: w)
  case 0
  show ?case
    by (subst refreshAccessToken_unfold) (auto split: prod.splits fetched.splits sum.splits)
next
  case (Suc k)
  show ?case using Suc.IH
    by (subst refreshAccessToken_unfold) (auto split: prod.splits fetched.splits sum.splits)
qed



section \<open>The retry policy\<close>

lemma full_env_credentials:
  "getJwtCredentials full_env
     = Inr \<lparr> clientId = ''client'', username = ''user@acme.com'', privateKey = ''key'' \<rparr>"
  "getLoginUrl full_env = ''https://login.salesforce.com''"
  by (simp_all add: getJwtCredentials_def getLoginUrl_def full_env_def falsy_var_def env_val_def
      env_or_def)

lemma authenticateWithJwt_500:
  "env w = full_env \<Longrightarrow>
   authenticateWithJwt up_500 w
     = (Throw (Error ''Internal Server Error''),
        w\<lparr> log := log w @ [Fetch demo_jwt_request], now := now w + 50 \<rparr>)"
  by (simp add: authenticateWithJwt_def full_env_credentials up_500_def up_ok_def
      api_fetch_token_def ok_def demo_jwt_request_def)

lemmas reauthenticate_210 =
  reauthenticate.simps [of 2] reauthenticate.simps [of "Suc 0"] reauthenticate.simps [of 0]

lemma reauthenticate_500:
  "env w = full_env \<Longrightarrow>
   reauthenticate 2 up_500 w
     = (Throw (Error ''Internal Server Error''),
        w\<lparr> log := log w @ [Fetch demo_jwt_request, Sleep 1000, Fetch demo_jwt_request,
                           Sleep 1000, Fetch demo_jwt_request],
           now := now w + 2150, tokenCache := None \<rparr>)"
  by (simp add: reauthenticate_210 authenticateWithJwt_500 sleep_def)

lemma retries_used_le: "retries_used r up n req \<le> r"
  by (induction r arbitrary: n) auto

lemma rt_log_exact:
  "log (snd (refreshAccessToken retries up w))
     = log w @ with_pauses (replicate (Suc (retries_used retries up (length (log w))
                                              (rt_request (env w))))
                              [Fetch (rt_request (env w))])"
proof (induction retries arbitrary: w)
  case 0
  obtain f w1 where f: "api_fetch_token up (rt_request (env w)) w = (f, w1)" by force
  from api_fetch_token_log [OF f] show ?case
    by (subst refreshAccessToken_unfold) (auto simp: f split: fetched.splits sum.splits)
next
  case (Suc k)
  obtain f w1 where f: "api_fetch_token up (rt_request (env w)) w = (f, w1)" by force
  note l = api_fetch_token_log [OF f]
  show ?case
  proof (cases "transient f")
    case True
    with Suc.IH [of "sleep 1000 w1"] l show ?thesis
      by (subst refreshAccessToken_unfold) (simp add: f)
  next
    case False
    with l show ?thesis
      by (subst refreshAccessToken_unfold) (auto simp: f split: fetched.splits sum.splits)
  qed
qed

text \<open>
  Claim C3, as amended. A run of the retry policy with \<open>retries\<close> retries allowed makes at
  most \<open>retries + 1\<close> attempts, with the one-second pause between an attempt and the next;
  \<open>getSalesforceAccessToken\<close> allows 2. In the refresh-token variant every attempt is one
  token request, and the run is a request followed by a pause and a request for each
  transient answer in a row (an HTTP 400 whose body contains \<open>retry your request\<close>), at
  most \<open>retries\<close> times; when the first answer is not transient the run is that single
  request. In the signed-assertion variant an attempt is one token request, or none when
  it fails before the request, and a run that ends in an error has used all its attempts:
  every failure is retried.
\<close>

theorem retry_policy:
  "log (snd (refreshAccessToken retries up w))
     = log w @ with_pauses (replicate (Suc (retries_used retries up (length (log w))
                                              (rt_request (env w))))
                              [Fetch (rt_request (env w))]) \<and>
   retries_used retries up (length (log w)) (rt_request (env w)) \<le> retries \<and>
   (\<not> transient (snd (token_endpoint up (length (log w)) (rt_request (env w)))) \<longrightarrow>
      log (snd (refreshAccessToken retries up w)) = log w @ [Fetch (rt_request (env w))]) \<and>
   (\<exists>as. as \<noteq> [] \<and> length as \<le> Suc retries \<and>
      list_all (\<lambda>a. a = [] \<or> (\<exists>req. a = [Fetch req])) as \<and>
      log (snd (reauthenticate retries up w)) = log w @ with_pauses as \<and>
      (\<forall>e. fst (reauthenticate retries up w) = Throw e \<longrightarrow> length as = Suc retries))"
  using rt_log_exact [of retries up w] retries_used_le [of retries up]
        rt_not_transient [of up w retries] jwt_log [of retries up w]
  by blast

lemma up_500_not_transient:
  "\<not> transient (snd (token_endpoint up_500 n req))"
  by (simp add: up_500_def up_ok_def transient_def)

theorem retry_policy_witness:
  "\<not> transient (snd (token_endpoint up_500 (length (log cold_world)) (rt_request (env cold_world)))) \<and>
   log (snd (refreshAccessToken 2 up_500 cold_world))
     = log cold_world @ [Fetch (rt_request (env cold_world))] \<and>
   fst (reauthenticate 2 up_500 cold_world) = Throw (Error ''Internal Server Error'') \<and>
   (\<exists>as. length as = 3 \<and>
      log (snd (reauthenticate 2 up_500 cold_world)) = log cold_world @ with_pauses as) \<and>
   retries_used 2 up_flaky (length (log cold_world)) (rt_request (env cold_world)) = 1 \<and>
   log (snd (refreshAccessToken 2 up_flaky cold_world))
     = [Fetch (rt_request full_env), Sleep 1000, Fetch (rt_request full_env)]"
proof -
  note t = retry_policy [of 2 up_500 cold_world]
  have a: "fst (reauthenticate 2 up_500 cold_world) = Throw (Error ''Internal Server Error'')"
    by (simp add: reauthenticate_500 cold_world_def)
  from t up_500_not_transient
  have 1: "log (snd (refreshAccessToken 2 up_500 cold_world))
             = log cold_world @ [Fetch (rt_request (env cold_world))]"
    by blast
  from t a obtain as where
    "length as = Suc 2"
    "log (snd (reauthenticate 2 up_500 cold_world)) = log cold_world @ with_pauses as"
    by blast
  then have 2: "\<exists>as. length as = 3 \<and>
      log (snd (reauthenticate 2 up_500 cold_world)) = log cold_world @ with_pauses as"
    by (intro exI [of _ as]) simp
  have u: "retries_used 2 up_flaky (length (log cold_world)) (rt_request (env cold_world)) = 1"
    by (simp add: numeral_2_eq_2 up_flaky_def up_ok_def transient_def cold_world_def)
  from retry_policy [of 2 up_flaky cold_world, THEN conjunct1]
  have 3: "log (snd (refreshAccessToken 2 up_flaky cold_world))
     = [Fetch (rt_request full_env), Sleep 1000, Fetch (rt_request full_env)]"
    unfolding u by (simp add: cold_world_def numeral_2_eq_2)
  from up_500_not_transient 1 a 2 u 3 show ?thesis by blast
qed

text \<open>
  Claim C3 as stated fails in the signed-assertion variant: against a token endpoint that
  answers HTTP 500, which is not the transient failure, \<open>getSalesforceAccessToken\<close> makes
  three token requests, not one.
\<close>

theorem jwt_retries_every_failure:
  "\<not> transient (snd (token_endpoint up_500 0 demo_jwt_request)) \<and>
   fst (jwt_getSalesforceAccessToken up_500 cold_world) = Throw (Error ''Internal Server Error'') \<and>
   log (snd (jwt_getSalesforceAccessToken up_500 cold_world))
     = [Fetch demo_jwt_request, Sleep 1000, Fetch demo_jwt_request, Sleep 1000,
        Fetch demo_jwt_request]"
  by (simp add: jwt_getSalesforceAccessToken_def fresh_token_def fresh_entry_def
      reauthenticate_500 up_500_not_transient cold_world_def)

section \<open>Failed authentication and the cache\<close>

lemma fresh_entry_later:
  "fresh_entry c t = None \<Longrightarrow> t \<le> t' \<Longrightarrow> fresh_entry c t' = None"
  by (auto simp: fresh_entry_def split: option.splits if_splits)

lemma jwt_get_Throw:
  assumes "jwt_getSalesforceAccessToken up w = (Throw e, w')"
  shows "tokenCache w' = None \<and> fresh_token w' = None \<and> \<not> tokenPromise w'"
proof -
  from assms obtain w1 where
    r: "reauthenticate 2 up (w\<lparr> tokenPromise := True \<rparr>) = (Throw e, w1)"
       "w' = w1\<lparr> tokenPromise := False \<rparr>"
    by (auto simp: jwt_getSalesforceAccessToken_def split: option.splits if_splits prod.splits)
  from reauthenticate_Throw [OF r(1)] r(2) show ?thesis
    by (simp add: fresh_token_def fresh_entry_def)
qed

lemma rt_get_Throw:
  assumes "rt_getSalesforceAccessToken up w = (Throw e, w')"
  shows "tokenCache w' = tokenCache w \<and> fresh_token w' = None \<and> \<not> tokenPromise w'"
proof -
  from assms obtain w1 where
    r: "refreshAccessToken 2 up (w\<lparr> tokenPromise := True \<rparr>) = (Throw e, w1)"
       "w' = w1\<lparr> tokenPromise := False \<rparr>" "fresh_token w = None"
    by (auto simp: rt_getSalesforceAccessToken_def split: option.splits if_splits prod.splits)
  from refreshAccessToken_Throw [OF r(1)]
  have c: "tokenCache w1 = tokenCache w" "now w \<le> now w1" by simp_all
  from r(3) c have "fresh_entry (tokenCache w1) (now w1) = None"
    by (simp add: fresh_token_def fresh_entry_later)
  with c r(2) show ?thesis by (simp add: fresh_token_def)
qed

text \<open>
  Claim C8, as amended. When a run of the retry policy ends in an error, the error is the
  one its last attempt observed. In the signed-assertion variant the cache is then
  cleared. In the refresh-token variant the cache is left as it was; after a failed
  \<open>getSalesforceAccessToken\<close> it is therefore still stale (absent, or holding the expired
  entry). In both variants \<open>tokenPromise\<close> is null again.
\<close>

theorem failed_authentication:
  "(reauthenticate retries up w = (Throw e, w') \<longrightarrow>
      tokenCache w' = None \<and>
      (\<exists>wl wl'. authenticateWithJwt up wl = (Throw e, wl') \<and> w' = wl'\<lparr> tokenCache := None \<rparr>)) \<and>
   (jwt_getSalesforceAccessToken up w = (Throw e, w') \<longrightarrow>
      tokenCache w' = None \<and> fresh_token w' = None \<and> \<not> tokenPromise w') \<and>
   (refreshAccessToken retries up w = (Throw e, w') \<longrightarrow>
      tokenCache w' = tokenCache w \<and>
      (\<exists>wl f. api_fetch_token up (rt_request (env w)) wl = (f, w') \<and> rt_failure f = Some e)) \<and>
   (rt_getSalesforceAccessToken up w = (Throw e, w') \<longrightarrow>
      tokenCache w' = tokenCache w \<and> fresh_token w' = None \<and> \<not> tokenPromise w')"
  using reauthenticate_Throw [of retries up w e w'] jwt_get_Throw [of up w e w']
        refreshAccessToken_Throw [of retries up w e w'] rt_get_Throw [of up w e w']
  by blast

lemma refreshAccessToken_500:
  "refreshAccessToken retries up_500 w
     = (Throw (Error ''Salesforce Auth Failed: Internal Server Error''),
        w\<lparr> log := log w @ [Fetch (rt_request (env w))], now := now w + 50 \<rparr>)"
  by (subst refreshAccessToken_unfold)
     (simp add: transient_def api_fetch_token_def up_500_def up_ok_def ok_def)

lemma rt_get_500:
  "rt_getSalesforceAccessToken up_500 stale_world
     = (Throw (Error ''Salesforce Auth Failed: Internal Server Error''),
        stale_world\<lparr> log := [Fetch (rt_request full_env)], now := 1000050 \<rparr>)"
  by (simp add: rt_getSalesforceAccessToken_def fresh_token_def fresh_entry_def
      refreshAccessToken_500 stale_world_def cold_world_def old_token_def)

lemma jwt_get_500:
  "jwt_getSalesforceAccessToken up_500 stale_world
     = (Throw (Error ''Internal Server Error''),
        stale_world\<lparr> log := [Fetch demo_jwt_request, Sleep 1000, Fetch demo_jwt_request,
                             Sleep 1000, Fetch demo_jwt_request],
                     now := 1002150, tokenCache := None \<rparr>)"
  by (simp add: jwt_getSalesforceAccessToken_def fresh_token_def fresh_entry_def
      reauthenticate_500 stale_world_def cold_world_def old_token_def)

theorem failed_authentication_witness:
  "reauthenticate 2 up_500 stale_world
     = (Throw (Error ''Internal Server Error''),
        stale_world\<lparr> log := [Fetch demo_jwt_request, Sleep 1000, Fetch demo_jwt_request,
                             Sleep 1000, Fetch demo_jwt_request],
                     now := 1002150, tokenCache := None \<rparr>) \<and>
   jwt_getSalesforceAccessToken up_500 stale_world
     = (Throw (Error ''Internal Server Error''),
        stale_world\<lparr> log := [Fetch demo_jwt_request, Sleep 1000, Fetch demo_jwt_request,
                             Sleep 1000, Fetch demo_jwt_request],
                     now := 1002150, tokenCache := None \<rparr>) \<and>
   tokenCache (stale_world\<lparr> log := [Fetch demo_jwt_request, Sleep 1000, Fetch demo_jwt_request,
                                    Sleep 1000, Fetch demo_jwt_request],
                            now := 1002150, tokenCache := None \<rparr>) = None \<and>
   refreshAccessToken 2 up_500 stale_world
     = (Throw (Error ''Salesforce Auth Failed: Internal Server Error''),
        stale_world\<lparr> log := [Fetch (rt_request full_env)], now := 1000050 \<rparr>) \<and>
   rt_getSalesforceAccessToken up_500 stale_world
     = (Throw (Error ''Salesforce Auth Failed: Internal Server Error''),
        stale_world\<lparr> log := [Fetch (rt_request full_env)], now := 1000050 \<rparr>) \<and>
   tokenCache (stale_world\<lparr> log := [Fetch (rt_request full_env)], now := 1000050 \<rparr>)
     = tokenCache stale_world \<and>
   fresh_token (stale_world\<lparr> log := [Fetch (rt_request full_env)], now := 1000050 \<rparr>) = None"
proof -
  let ?wj = "stale_world\<lparr> log := [Fetch demo_jwt_request, Sleep 1000, Fetch demo_jwt_request,
                                   Sleep 1000, Fetch demo_jwt_request],
                           now := 1002150, tokenCache := None \<rparr>"
  let ?wr = "stale_world\<lparr> log := [Fetch (rt_request full_env)], now := 1000050 \<rparr>"
  have j: "reauthenticate 2 up_500 stale_world = (Throw (Error ''Internal Server Error''), ?wj)"
    by (simp add: reauthenticate_500 stale_world_def cold_world_def)
  have r: "refreshAccessToken 2 up_500 stale_world
             = (Throw (Error ''Salesforce Auth Failed: Internal Server Error''), ?wr)"
    by (simp add: refreshAccessToken_500 stale_world_def cold_world_def)
  note tj = failed_authentication [of 2 up_500 stale_world "Error ''Internal Server Error''" ?wj]
  note tr = failed_authentication
      [of 2 up_500 stale_world "Error ''Salesforce Auth Failed: Internal Server Error''" ?wr]
  from tj [THEN conjunct1, THEN mp, OF j]
  have 1: "tokenCache ?wj = None" by (rule conjunct1)
  from tj [THEN conjunct2, THEN conjunct1, THEN mp, OF jwt_get_500]
  have 2: "tokenCache ?wj = None \<and> fresh_token ?wj = None \<and> \<not> tokenPromise ?wj" .
  from tr [THEN conjunct2, THEN conjunct2, THEN conjunct1, THEN mp, OF r]
  have 3: "tokenCache ?wr = tokenCache stale_world" by (rule conjunct1)
  from tr [THEN conjunct2, THEN conjunct2, THEN conjunct2, THEN mp, OF rt_get_500]
  have 4: "fresh_token ?wr = None" by blast
  from j jwt_get_500 1 2 r rt_get_500 3 4 show ?thesis by blast
qed

text \<open>
  Claim C8 as stated fails in the refresh-token variant: after a failed authentication the
  cache still holds the expired entry, it has not been cleared.
\<close>

theorem refresh_variant_keeps_cache_on_failure:
  "tokenCache stale_world = Some old_token \<and>
   fst (rt_getSalesforceAccessToken up_500 stale_world)
     = Throw (Error ''Salesforce Auth Failed: Internal Server Error'') \<and>
   tokenCache (snd (rt_getSalesforceAccessToken up_500 stale_world)) = Some old_token"
  by (simp add: rt_get_500) (simp add: stale_world_def)

section \<open>Cache freshness\<close>

lemma fresh_token_Some:
  "fresh_token w = Some c \<longleftrightarrow> tokenCache w = Some c \<and> now w < expiresAt c"
  by (auto simp: fresh_token_def fresh_entry_def split: option.splits)

lemma fresh_token_None:
  "fresh_token w = None \<longleftrightarrow> (\<forall>c. tokenCache w = Some c \<longrightarrow> expiresAt c \<le> now w)"
  by (auto simp: fresh_token_def fresh_entry_def split: option.splits)

lemma with_pauses_first:
  "with_pauses ((x # xs) # as) = x # with_pauses (xs # as)"
  by (cases as) auto

lemma rt_first_request:
  "\<exists>rest. log (snd (refreshAccessToken retries up w)) = log w @ Fetch (rt_request (env w)) # rest"
proof -
  from rt_log [of retries up w] obtain n where
    "log (snd (refreshAccessToken retries up w))
       = log w @ with_pauses (replicate (Suc n) [Fetch (rt_request (env w))])"
    by blast
  then show ?thesis by (simp add: with_pauses_first)
qed

lemma jwt_first_request:
  assumes "jwt_prepare up (env w) (now w) = Inr req"
  shows "\<exists>rest. log (snd (reauthenticate retries up w)) = log w @ Fetch req # rest"
proof -
  obtain f w1 where f: "api_fetch_token up req w = (f, w1)" by force
  note l = api_fetch_token_log [OF f]
  show ?thesis
  proof (cases "jwt_response f")
    case (Inr a)
    with assms f have "authenticateWithJwt up w = (Return a, w1)"
      by (simp add: authenticateWithJwt_split)
    then have "log (snd (reauthenticate retries up w)) = log w @ [Fetch req]"
      using l by (subst reauthenticate.simps) simp
    then show ?thesis by simp
  next
    case (Inl e)
    with assms f have a: "authenticateWithJwt up w = (Throw e, w1)"
      by (simp add: authenticateWithJwt_split)
    show ?thesis
    proof (cases "retries > 0")
      case True
      from jwt_log [of "retries - 1" up "sleep 1000 w1"] obtain as where
        "log (snd (reauthenticate (retries - 1) up (sleep 1000 w1)))
           = log (sleep 1000 w1) @ with_pauses as"
        by blast
      with True a l show ?thesis by (subst reauthenticate.simps) simp
    next
      case False
      with a l show ?thesis by (subst reauthenticate.simps) simp
    qed
  qed
qed

lemma jwt_get_stale:
  assumes "fresh_token w = None" and "\<not> tokenPromise w"
  shows "jwt_getSalesforceAccessToken up w
         = (fst (reauthenticate 2 up (w\<lparr> tokenPromise := True \<rparr>)),
            (snd (reauthenticate 2 up (w\<lparr> tokenPromise := True \<rparr>)))\<lparr> tokenPromise := False \<rparr>)"
  using assms by (simp add: jwt_getSalesforceAccessToken_def split: prod.splits)

lemma rt_get_stale:
  assumes "fresh_token w = None" and "\<not> tokenPromise w"
  shows "rt_getSalesforceAccessToken up w
         = (fst (refreshAccessToken 2 up (w\<lparr> tokenPromise := True \<rparr>)),
            (snd (refreshAccessToken 2 up (w\<lparr> tokenPromise := True \<rparr>)))\<lparr> tokenPromise := False \<rparr>)"
  using assms by (simp add: rt_getSalesforceAccessToken_def split: prod.splits)

lemma jwt_get_Return:
  assumes "fresh_token w = None" and "jwt_getSalesforceAccessToken up w = (Return a, w')"
  shows "tokenCache w' = Some (cache_entry a (now w'))"
proof -
  from assms obtain w1 where
    r: "reauthenticate 2 up (w\<lparr> tokenPromise := True \<rparr>) = (Return a, w1)"
       "w' = w1\<lparr> tokenPromise := False \<rparr>"
    by (auto simp: jwt_getSalesforceAccessToken_def split: if_splits prod.splits)
  from reauthenticate_Return [OF r(1)] r(2) show ?thesis by simp
qed

lemma rt_get_Return:
  assumes "fresh_token w = None" and "rt_getSalesforceAccessToken up w = (Return a, w')"
  shows "tokenCache w' = Some (cache_entry a (now w'))"
proof -
  from assms obtain w1 where
    r: "refreshAccessToken 2 up (w\<lparr> tokenPromise := True \<rparr>) = (Return a, w1)"
       "w' = w1\<lparr> tokenPromise := False \<rparr>"
    by (auto simp: rt_getSalesforceAccessToken_def split: if_splits prod.splits)
  from refreshAccessToken_Return [OF r(1)] r(2) show ?thesis by simp
qed

text \<open>
  Claim C4, as amended. If a cached token exists and the current time is strictly less
  than its \<open>expiresAt\<close>, \<open>getSalesforceAccessToken\<close> returns it and leaves the process as it
  was: no network call. Otherwise it awaits the refresh in flight if there is one. If
  there is none it starts a run of the retry policy, whose first effect is a token
  request in the refresh-token variant, and in the signed-assertion variant whenever
  credential loading and signing give a request to send. When the call then returns a
  token, the cache holds that token with \<open>expiresAt\<close> equal to the time of the return
  plus 55 minutes.
\<close>

theorem cache_freshness:
  "(tokenCache w = Some c \<and> now w < expiresAt c \<longrightarrow>
      jwt_getSalesforceAccessToken up w = (Return (cached_auth c), w) \<and>
      rt_getSalesforceAccessToken up w = (Return (cached_auth c), w)) \<and>
   (fresh_token w = None \<and> tokenPromise w \<longrightarrow>
      jwt_getSalesforceAccessToken up w = (Join, w) \<and>
      rt_getSalesforceAccessToken up w = (Join, w)) \<and>
   (fresh_token w = None \<and> \<not> tokenPromise w \<longrightarrow>
      (\<exists>rest. log (snd (rt_getSalesforceAccessToken up w))
                 = log w @ Fetch (rt_request (env w)) # rest) \<and>
      (jwt_prepare up (env w) (now w) = Inr req \<longrightarrow>
         (\<exists>rest. log (snd (jwt_getSalesforceAccessToken up w)) = log w @ Fetch req # rest))) \<and>
   (fresh_token w = None \<and> jwt_getSalesforceAccessToken up w = (Return a, w') \<longrightarrow>
      tokenCache w'
        = Some \<lparr> access_token = access_token a, instance_url = instance_url a,
                 expiresAt = now w' + 55 * 60 * 1000 \<rparr>) \<and>
   (fresh_token w = None \<and> rt_getSalesforceAccessToken up w = (Return a, w') \<longrightarrow>
      tokenCache w'
        = Some \<lparr> access_token = access_token a, instance_url = instance_url a,
                 expiresAt = now w' + 55 * 60 * 1000 \<rparr>)"
proof -
  have 1: "tokenCache w = Some c \<and> now w < expiresAt c \<longrightarrow>
      jwt_getSalesforceAccessToken up w = (Return (cached_auth c), w) \<and>
      rt_getSalesforceAccessToken up w = (Return (cached_auth c), w)"
    by (simp add: jwt_getSalesforceAccessToken_def rt_getSalesforceAccessToken_def
        fresh_token_def fresh_entry_def)
  have 2: "fresh_token w = None \<and> tokenPromise w \<longrightarrow>
      jwt_getSalesforceAccessToken up w = (Join, w) \<and>
      rt_getSalesforceAccessToken up w = (Join, w)"
    by (simp add: jwt_getSalesforceAccessToken_def rt_getSalesforceAccessToken_def)
  have 3: "fresh_token w = None \<and> \<not> tokenPromise w \<longrightarrow>
      (\<exists>rest. log (snd (rt_getSalesforceAccessToken up w))
                 = log w @ Fetch (rt_request (env w)) # rest)"
    using rt_first_request [of 2 up "w\<lparr> tokenPromise := True \<rparr>"]
    by (auto simp: rt_get_stale)
  have 4: "fresh_token w = None \<and> \<not> tokenPromise w \<longrightarrow>
      jwt_prepare up (env w) (now w) = Inr req \<longrightarrow>
         (\<exists>rest. log (snd (jwt_getSalesforceAccessToken up w)) = log w @ Fetch req # rest)"
    using jwt_first_request [of up "w\<lparr> tokenPromise := True \<rparr>" req 2]
    by (auto simp: jwt_get_stale)
  have 5: "fresh_token w = None \<and> jwt_getSalesforceAccessToken up w = (Return a, w') \<longrightarrow>
      tokenCache w'
        = Some \<lparr> access_token = access_token a, instance_url = instance_url a,
                 expiresAt = now w' + 55 * 60 * 1000 \<rparr>"
    using jwt_get_Return [of w up a w'] by (simp add: cache_entry_def)
  have 6: "fresh_token w = None \<and> rt_getSalesforceAccessToken up w = (Return a, w') \<longrightarrow>
      tokenCache w'
        = Some \<lparr> access_token = access_token a, instance_url = instance_url a,
                 expiresAt = now w' + 55 * 60 * 1000 \<rparr>"
    using rt_get_Return [of w up a w'] by (simp add: cache_entry_def)
  from 1 2 3 4 5 6 show ?thesis by blast
qed


lemma authenticateWithJwt_ok:
  "env w = full_env \<Longrightarrow>
   authenticateWithJwt up_ok w
     = (Return demo_auth, w\<lparr> log := log w @ [Fetch demo_jwt_request], now := now w + 120 \<rparr>)"
  by (simp add: authenticateWithJwt_def full_env_credentials up_ok_def api_fetch_token_def ok_def
      demo_jwt_request_def demo_auth_def)

lemma reauthenticate_ok:
  "env w = full_env \<Longrightarrow>
   reauthenticate 2 up_ok w
     = (Return demo_auth,
        w\<lparr> log := log w @ [Fetch demo_jwt_request], now := now w + 120,
           tokenCache := Some (cache_entry demo_auth (now w + 120)) \<rparr>)"
  by (simp add: reauthenticate.simps [of 2] authenticateWithJwt_ok)

lemma jwt_prepare_ok: "jwt_prepare up_ok full_env t = Inr demo_jwt_request"
  by (simp add: jwt_prepare_def full_env_credentials up_ok_def demo_jwt_request_def)

lemma jwt_get_ok:
  "jwt_getSalesforceAccessToken up_ok cold_world
     = (Return demo_auth,
        cold_world\<lparr> log := [Fetch demo_jwt_request], now := 1000120,
                    tokenCache := Some (cache_entry demo_auth 1000120) \<rparr>)"
  by (simp add: jwt_getSalesforceAccessToken_def fresh_token_def fresh_entry_def reauthenticate_ok
      cold_world_def)

lemma cold_world_stale: "fresh_token cold_world = None" "\<not> tokenPromise cold_world"
  by (simp_all add: cold_world_def fresh_token_def fresh_entry_def)

lemma refreshAccessToken_ok:
  "refreshAccessToken retries up_ok w
     = (Return demo_auth,
        w\<lparr> log := log w @ [Fetch (rt_request (env w))], now := now w + 120,
           tokenCache := Some (cache_entry demo_auth (now w + 120)) \<rparr>)"
  by (subst refreshAccessToken_unfold)
     (simp add: transient_def api_fetch_token_def up_ok_def ok_def demo_auth_def)

lemma rt_get_ok:
  "rt_getSalesforceAccessToken up_ok cold_world
     = (Return demo_auth,
        cold_world\<lparr> log := [Fetch (rt_request full_env)], now := 1000120,
                    tokenCache := Some (cache_entry demo_auth 1000120) \<rparr>)"
  by (simp add: rt_getSalesforceAccessToken_def fresh_token_def fresh_entry_def
      refreshAccessToken_ok cold_world_def)

theorem cache_freshness_witness:
  "jwt_getSalesforceAccessToken up_ok warm_world
     = (Return \<lparr> access_token = ''T0'', instance_url = ''https://acme.my.salesforce.com'' \<rparr>,
        warm_world) \<and>
   rt_getSalesforceAccessToken up_ok warm_world
     = (Return \<lparr> access_token = ''T0'', instance_url = ''https://acme.my.salesforce.com'' \<rparr>,
        warm_world) \<and>
   jwt_getSalesforceAccessToken up_ok (stale_world\<lparr> tokenPromise := True \<rparr>)
     = (Join, stale_world\<lparr> tokenPromise := True \<rparr>) \<and>
   rt_getSalesforceAccessToken up_ok (stale_world\<lparr> tokenPromise := True \<rparr>)
     = (Join, stale_world\<lparr> tokenPromise := True \<rparr>) \<and>
   (\<exists>rest. log (snd (rt_getSalesforceAccessToken up_ok cold_world))
              = Fetch (rt_request full_env) # rest) \<and>
   (\<exists>rest. log (snd (jwt_getSalesforceAccessToken up_ok cold_world))
              = Fetch demo_jwt_request # rest) \<and>
   jwt_getSalesforceAccessToken up_ok cold_world
     = (Return demo_auth,
        cold_world\<lparr> log := [Fetch demo_jwt_request], now := 1000120,
                    tokenCache := Some (cache_entry demo_auth 1000120) \<rparr>) \<and>
   rt_getSalesforceAccessToken up_ok cold_world
     = (Return demo_auth,
        cold_world\<lparr> log := [Fetch (rt_request full_env)], now := 1000120,
                    tokenCache := Some (cache_entry demo_auth 1000120) \<rparr>) \<and>
   tokenCache (cold_world\<lparr> log := [Fetch demo_jwt_request], now := 1000120,
                           tokenCache := Some (cache_entry demo_auth 1000120) \<rparr>)
     = Some \<lparr> access_token = ''T1'', instance_url = ''https://acme.my.salesforce.com'',
              expiresAt = 4300120 \<rparr> \<and>
   tokenCache (cold_world\<lparr> log := [Fetch (rt_request full_env)], now := 1000120,
                           tokenCache := Some (cache_entry demo_auth 1000120) \<rparr>)
     = Some \<lparr> access_token = ''T1'', instance_url = ''https://acme.my.salesforce.com'',
              expiresAt = 4300120 \<rparr>"
proof -
  let ?wj = "cold_world\<lparr> log := [Fetch demo_jwt_request], now := 1000120,
                         tokenCache := Some (cache_entry demo_auth 1000120) \<rparr>"
  let ?wr = "cold_world\<lparr> log := [Fetch (rt_request full_env)], now := 1000120,
                         tokenCache := Some (cache_entry demo_auth 1000120) \<rparr>"
  have w: "tokenCache warm_world = Some (old_token\<lparr> expiresAt := 2000000 \<rparr>) \<and>
           now warm_world < expiresAt (old_token\<lparr> expiresAt := 2000000 \<rparr>)"
    by (simp add: warm_world_def cold_world_def)
  from cache_freshness [of warm_world "old_token\<lparr> expiresAt := 2000000 \<rparr>" up_ok,
                        THEN conjunct1, THEN mp, OF w]
  have 1: "jwt_getSalesforceAccessToken up_ok warm_world
     = (Return \<lparr> access_token = ''T0'', instance_url = ''https://acme.my.salesforce.com'' \<rparr>,
        warm_world) \<and>
   rt_getSalesforceAccessToken up_ok warm_world
     = (Return \<lparr> access_token = ''T0'', instance_url = ''https://acme.my.salesforce.com'' \<rparr>,
        warm_world)"
    by (simp add: cached_auth_def old_token_def)
  have s: "fresh_token (stale_world\<lparr> tokenPromise := True \<rparr>) = None \<and>
           tokenPromise (stale_world\<lparr> tokenPromise := True \<rparr>)"
    by (simp add: stale_world_def cold_world_def old_token_def fresh_token_def fresh_entry_def)
  from cache_freshness [of "stale_world\<lparr> tokenPromise := True \<rparr>" _ up_ok,
                        THEN conjunct2, THEN conjunct1, THEN mp, OF s]
  have 2: "jwt_getSalesforceAccessToken up_ok (stale_world\<lparr> tokenPromise := True \<rparr>)
     = (Join, stale_world\<lparr> tokenPromise := True \<rparr>) \<and>
   rt_getSalesforceAccessToken up_ok (stale_world\<lparr> tokenPromise := True \<rparr>)
     = (Join, stale_world\<lparr> tokenPromise := True \<rparr>)" .
  have e: "env cold_world = full_env" "log cold_world = []" "now cold_world = 1000000"
    by (simp_all add: cold_world_def)
  note t = cache_freshness [of cold_world _ up_ok demo_jwt_request demo_auth]
  from t [of _ ?wj] cold_world_stale
  have 3: "\<exists>rest. log (snd (rt_getSalesforceAccessToken up_ok cold_world))
              = Fetch (rt_request full_env) # rest"
    by (simp add: e)
  from t [of _ ?wj] cold_world_stale jwt_prepare_ok [of "now cold_world"]
  have 4: "\<exists>rest. log (snd (jwt_getSalesforceAccessToken up_ok cold_world))
              = Fetch demo_jwt_request # rest"
    by (simp add: e)
  from t [of _ ?wj] cold_world_stale jwt_get_ok
  have 5: "tokenCache ?wj
     = Some \<lparr> access_token = ''T1'', instance_url = ''https://acme.my.salesforce.com'',
              expiresAt = 4300120 \<rparr>"
    by (simp add: demo_auth_def)
  from t [of _ ?wr] cold_world_stale rt_get_ok
  have 6: "tokenCache ?wr
     = Some \<lparr> access_token = ''T1'', instance_url = ''https://acme.my.salesforce.com'',
              expiresAt = 4300120 \<rparr>"
    by (simp add: demo_auth_def)
  from 1 2 3 4 jwt_get_ok rt_get_ok 5 6 show ?thesis by blast
qed

text \<open>
  Claim C4 as stated fails in the signed-assertion variant when a credential is missing:
  the cache is empty, no refresh is in flight, and \<open>getSalesforceAccessToken\<close> ends without
  having made a network call.
\<close>

theorem jwt_get_without_network_call:
  "tokenCache half_world = None \<and> \<not> tokenPromise half_world \<and>
   fetches (snd (jwt_getSalesforceAccessToken up_ok half_world)) = []"
proof -
  have c: "getJwtCredentials (env (half_world\<lparr> tokenPromise := True \<rparr>))
      = Inl (Error ''Missing required Forge variables: SALESFORCE_USERNAME, SALESFORCE_JWT_PRIVATE_KEY'')"
    by (simp add: half_world_def cold_world_def getJwtCredentials_def falsy_var_def)
  from reauthenticate_no_credentials [OF c, of 2 up_ok] obtain w1 where
    r: "reauthenticate 2 up_ok (half_world\<lparr> tokenPromise := True \<rparr>)
          = (Throw (Error ''Missing required Forge variables: SALESFORCE_USERNAME, SALESFORCE_JWT_PRIVATE_KEY''), w1)"
       "fetches w1 = fetches (half_world\<lparr> tokenPromise := True \<rparr>)"
    by blast
  have h: "tokenCache half_world = None" "\<not> tokenPromise half_world" "log half_world = []"
    by (simp_all add: half_world_def cold_world_def)
  then have "fresh_token half_world = None" by (simp add: fresh_token_def fresh_entry_def)
  with h r have "fetches (snd (jwt_getSalesforceAccessToken up_ok half_world)) = []"
    by (simp add: jwt_get_stale fetches_def)
  with h show ?thesis by simp
qed

section \<open>The executor and the 401 answer\<close>


lemma queries_simps [simp]:
  "queries (sleep ms w) = queries w"
  "queries (w\<lparr> tokenCache := c \<rparr>) = queries w"
  "queries (w\<lparr> tokenPromise := b \<rparr>) = queries w"
  by (simp_all add: queries_def)

























section \<open>Single flight\<close>

lemma callers_append: "callers (evs @ evs') = callers evs @ callers evs'"
  by (induction evs rule: callers.induct) auto

lemma settle_fields [simp]:
  "l_cache (settle i res s) = l_cache s" "l_now (settle i res s) = l_now s"
  "l_requests (settle i res s) = l_requests s" "l_promise (settle i res s) = None"
  "length (l_runs (settle i res s)) = length (l_runs s)" "l_env (settle i res s) = l_env s"
  by (simp_all add: settle_def)

lemma waiting_on_run:
  "filter (\<lambda>(c, j). j = n) (map (\<lambda>c. (c, n)) cs) = map (\<lambda>c. (c, n)) cs"
  "filter (\<lambda>(c, j). j \<noteq> n) (map (\<lambda>c. (c, n)) cs) = []"
  by (induction cs) auto

lemma settle_window:
  assumes "l_waiting s = map (\<lambda>c. (c, n0)) cs" and "length (l_runs s) = Suc n0"
      and "list_all is_settled (take n0 (l_runs s))"
  shows "l_answers (settle n0 res s) = l_answers s @ map (\<lambda>c. (c, res)) cs \<and>
         quiescent (settle n0 res s)"
proof -
  have "list_all is_settled ((l_runs s)[n0 := Settled res])"
    using assms(2,3)
    by (auto simp: list_all_length nth_list_update is_settled_def less_Suc_eq)
  then show ?thesis
    using assms(1) by (simp add: settle_def quiescent_def waiting_on_run)
qed

lemma window_settled:
  assumes "in_window n0 a0 q0 cs s"
  shows "l_answers (settle n0 res (s\<lparr> l_cache := x \<rparr>)) = a0 @ map (\<lambda>c. (c, res)) cs \<and>
         quiescent (settle n0 res (s\<lparr> l_cache := x \<rparr>)) \<and>
         length (l_runs (settle n0 res (s\<lparr> l_cache := x \<rparr>))) = Suc n0 \<and>
         length (l_requests (settle n0 res (s\<lparr> l_cache := x \<rparr>))) \<le> q0 + 3 \<and>
         l_answers (settle n0 res s) = a0 @ map (\<lambda>c. (c, res)) cs \<and>
         quiescent (settle n0 res s) \<and>
         length (l_runs (settle n0 res s)) = Suc n0 \<and>
         length (l_requests (settle n0 res s)) \<le> q0 + 3"
proof -
  from assms have w: "l_waiting s = map (\<lambda>c. (c, n0)) cs" "length (l_runs s) = Suc n0"
      "list_all is_settled (take n0 (l_runs s))" "l_answers s = a0"
    by (simp_all add: in_window_def)
  from assms have q: "length (l_requests s) \<le> q0 + 3"
    by (auto simp: in_window_def split: run_state.splits)
  from settle_window [of "s\<lparr> l_cache := x \<rparr>" n0 cs res] settle_window [of s n0 cs res] w q
  show ?thesis by simp
qed

lemma window_attempt_failed:
  assumes "in_window n0 a0 q0 cs s" and "l_runs s ! n0 = AwaitingResponse r \<or> l_runs s ! n0 = Pausing r"
  shows "in_window n0 a0 q0 cs (jwt_attempt_failed r e n0 s) \<or>
         answered n0 a0 q0 cs (jwt_attempt_failed r e n0 s)"
proof (cases "r > 0")
  case True
  with assms show ?thesis
    by (auto simp: jwt_attempt_failed_def in_window_def list_all_length nth_list_update)
next
  case False
  with window_settled [OF assms(1), of "Throw e" None] show ?thesis
    by (auto simp: jwt_attempt_failed_def answered_def)
qed

lemma window_begin_attempt:
  assumes "in_window n0 a0 q0 cs s" and "l_runs s ! n0 = Pausing r"
  shows "in_window n0 a0 q0 cs (begin_attempt v up r n0 s) \<or>
         answered n0 a0 q0 cs (begin_attempt v up r n0 s)"
proof (cases v)
  case RefreshToken
  with assms show ?thesis
    by (auto simp: begin_attempt_def in_window_def list_all_length nth_list_update)
next
  case SignedAssertion
  show ?thesis
  proof (cases "jwt_prepare up (l_env s) (l_now s)")
    case (Inl e)
    with SignedAssertion window_attempt_failed [OF assms(1), of r e] assms(2) show ?thesis
      by (simp add: begin_attempt_def)
  next
    case (Inr req)
    with SignedAssertion assms show ?thesis
      by (auto simp: begin_attempt_def in_window_def list_all_length nth_list_update)
  qed
qed

lemma window_on_response:
  assumes "in_window n0 a0 q0 cs s" and "l_runs s ! n0 = AwaitingResponse r"
  shows "in_window n0 a0 q0 cs (on_response v r f n0 s) \<or>
         answered n0 a0 q0 cs (on_response v r f n0 s)"
proof (cases v)
  case SignedAssertion
  show ?thesis
  proof (cases "jwt_response f")
    case (Inl e)
    with SignedAssertion window_attempt_failed [OF assms(1), of r e] assms(2) show ?thesis
      by (simp add: on_response_def)
  next
    case (Inr a)
    with SignedAssertion window_settled [OF assms(1), of "Return a" "Some (cache_entry a (l_now s))"]
    show ?thesis by (auto simp: on_response_def answered_def)
  qed
next
  case RefreshToken
  show ?thesis
  proof (cases "r > 0 \<and> transient f")
    case True
    with RefreshToken assms show ?thesis
      by (auto simp: on_response_def transient_def ok_def in_window_def list_all_length
          nth_list_update split: fetched.splits)
  next
    case False
    have "answered n0 a0 q0 cs (on_response v r f n0 s)"
      using False RefreshToken window_settled [OF assms(1)]
      by (auto simp: on_response_def transient_def answered_def split: fetched.splits sum.splits)
    then show ?thesis ..
  qed
qed

lemma window_step:
  assumes "in_window n0 a0 q0 cs s"
  shows "in_window n0 a0 q0 (cs @ callers [ev]) (step v up s ev) \<or>
         answered n0 a0 q0 cs (step v up s ev)"
proof (cases ev)
  case (Get c)
  with assms show ?thesis by (auto simp: step_def in_window_def split: run_state.splits)
next
  case (TokenResponse i f)
  show ?thesis
  proof (cases "i = n0")
    case True
    show ?thesis
    proof (cases "l_runs s ! n0")
      case (AwaitingResponse r)
      with window_on_response [OF assms this, of v f] TokenResponse True assms show ?thesis
        by (simp add: step_def in_window_def)
    qed (use assms TokenResponse True in \<open>auto simp: step_def\<close>)
  next
    case False
    with assms have "i < length (l_runs s) \<Longrightarrow> is_settled (l_runs s ! i)"
      by (auto simp: in_window_def list_all_length)
    with assms TokenResponse show ?thesis
      by (auto simp: step_def is_settled_def split: run_state.splits)
  qed
next
  case (TimerFired i)
  show ?thesis
  proof (cases "i = n0")
    case True
    show ?thesis
    proof (cases "l_runs s ! n0")
      case (Pausing r)
      with window_begin_attempt [OF assms this, of v up] TimerFired True assms show ?thesis
        by (simp add: step_def in_window_def)
    qed (use assms TimerFired True in \<open>auto simp: step_def\<close>)
  next
    case False
    with assms have "i < length (l_runs s) \<Longrightarrow> is_settled (l_runs s ! i)"
      by (auto simp: in_window_def list_all_length)
    with assms TimerFired show ?thesis
      by (auto simp: step_def is_settled_def split: run_state.splits)
  qed
next
  case (Tick d)
  with assms show ?thesis
    by (auto simp: step_def in_window_def split: run_state.splits intro: fresh_entry_later)
next
  case Disconnect
  with assms show ?thesis
    by (auto simp: step_def in_window_def fresh_entry_def split: run_state.splits)
qed

lemma settle_answers: "\<exists>xs. l_answers (settle i res s) = l_answers s @ xs"
  by (simp add: settle_def)

lemma attempt_failed_answers: "\<exists>xs. l_answers (jwt_attempt_failed r e i s) = l_answers s @ xs"
  using settle_answers [of i "Throw e" "s\<lparr> l_cache := None \<rparr>"]
  by (auto simp: jwt_attempt_failed_def)

lemma begin_attempt_answers: "\<exists>xs. l_answers (begin_attempt v up r i s) = l_answers s @ xs"
  using attempt_failed_answers [of r _ i s]
  by (auto simp: begin_attempt_def split: variant.splits sum.splits)

lemma on_response_answers: "\<exists>xs. l_answers (on_response v r f i s) = l_answers s @ xs"
proof (cases v)
  case SignedAssertion
  then show ?thesis
    using attempt_failed_answers [of r _ i s]
          settle_answers [of i _ "s\<lparr> l_cache := Some (cache_entry _ (l_now s)) \<rparr>"]
    by (auto simp: on_response_def split: sum.splits)
next
  case RefreshToken
  then show ?thesis
    using settle_answers [of i _ s]
          settle_answers [of i _ "s\<lparr> l_cache := Some (cache_entry _ (l_now s)) \<rparr>"]
    by (auto simp: on_response_def split: fetched.splits sum.splits)
qed

lemma step_answers: "\<exists>xs. l_answers (step v up s ev) = l_answers s @ xs"
proof (cases ev)
  case (Get c)
  show ?thesis
  proof (cases "fresh_entry (l_cache s) (l_now s)")
    case (Some tok)
    with Get show ?thesis by (simp add: step_def)
  next
    case None
    show ?thesis
    proof (cases "l_promise s")
      case (Some i)
      with None Get show ?thesis by (simp add: step_def)
    next
      case n: None
      from begin_attempt_answers
             [of v up 2 "length (l_runs s)"
                 "s\<lparr> l_runs := l_runs s @ [Pausing 2], l_promise := Some (length (l_runs s)),
                     l_waiting := l_waiting s @ [(c, length (l_runs s))] \<rparr>"]
      show ?thesis using None n Get by (simp add: step_def Let_def)
    qed
  qed
next
  case (TokenResponse i f)
  then show ?thesis
    using on_response_answers [of v _ f i s]
    by (auto simp: step_def split: run_state.splits)
next
  case (TimerFired i)
  then show ?thesis
    using begin_attempt_answers [of v up _ i s]
    by (auto simp: step_def split: run_state.splits)
qed (simp_all add: step_def)

lemma run_events_snoc: "run_events v up s (evs @ [ev]) = step v up (run_events v up s evs) ev"
  by (simp add: run_events_def)

lemma run_events_Cons: "run_events v up s (ev # evs) = run_events v up (step v up s ev) evs"
  by (simp add: run_events_def)

lemma run_answers: "\<exists>xs. l_answers (run_events v up s evs) = l_answers s @ xs"
proof (induction evs rule: rev_induct)
  case Nil
  show ?case by (simp add: run_events_def)
next
  case (snoc ev evs)
  then obtain xs where "l_answers (run_events v up s evs) = l_answers s @ xs" by blast
  moreover from step_answers [of v up "run_events v up s evs" ev] obtain ys where
    "l_answers (step v up (run_events v up s evs) ev) = l_answers (run_events v up s evs) @ ys"
    by blast
  ultimately show ?case by (simp add: run_events_snoc)
qed

text \<open>The first caller to find the cache stale opens the window.\<close>

lemma window_opens:
  assumes "quiescent s0" and "l_answers (step v up s0 (Get k)) = l_answers s0"
  shows "in_window (length (l_runs s0)) (l_answers s0) (length (l_requests s0)) [k]
           (step v up s0 (Get k))"
proof -
  from assms(2) have f: "fresh_entry (l_cache s0) (l_now s0) = None"
    by (cases "fresh_entry (l_cache s0) (l_now s0)") (auto simp: step_def)
  from assms(1) have q: "l_promise s0 = None" "l_waiting s0 = []" "list_all is_settled (l_runs s0)"
    by (simp_all add: quiescent_def)
  let ?s = "s0\<lparr> l_runs := l_runs s0 @ [Pausing 2], l_promise := Some (length (l_runs s0)),
                l_waiting := l_waiting s0 @ [(k, length (l_runs s0))] \<rparr>"
  have st: "step v up s0 (Get k) = begin_attempt v up 2 (length (l_runs s0)) ?s"
    using f q by (simp add: step_def Let_def)
  show ?thesis
    unfolding st using f q
    by (cases v)
       (auto simp: begin_attempt_def jwt_attempt_failed_def in_window_def nth_append
             split: sum.splits)
qed

lemma window_holds:
  assumes "quiescent s0"
      and "l_answers (run_events v up s0 (Get k # evs)) = l_answers s0"
  shows "in_window (length (l_runs s0)) (l_answers s0) (length (l_requests s0)) (k # callers evs)
           (run_events v up s0 (Get k # evs))"
  using assms(2)
proof (induction evs rule: rev_induct)
  case Nil
  with window_opens [OF assms(1), of v up k] show ?case by (simp add: run_events_def)
next
  case (snoc ev evs)
  let ?s = "run_events v up s0 (Get k # evs)"
  have e: "run_events v up s0 (Get k # evs @ [ev]) = step v up ?s ev"
    using run_events_snoc [of v up s0 "Get k # evs" ev] by simp
  from run_answers [of v up s0 "Get k # evs"] obtain xs where
    xs: "l_answers ?s = l_answers s0 @ xs" by blast
  from step_answers [of v up ?s ev] obtain ys where
    ys: "l_answers (step v up ?s ev) = l_answers ?s @ ys" by blast
  from snoc.prems e xs ys have "xs = []" by simp
  with xs snoc.IH have w: "in_window (length (l_runs s0)) (l_answers s0) (length (l_requests s0))
      (k # callers evs) ?s"
    by simp
  from window_step [OF w, of ev v up] show ?case
  proof
    assume "in_window (length (l_runs s0)) (l_answers s0) (length (l_requests s0))
              ((k # callers evs) @ callers [ev]) (step v up ?s ev)"
    then show ?thesis by (simp add: e callers_append)
  next
    assume "answered (length (l_runs s0)) (l_answers s0) (length (l_requests s0))
              (k # callers evs) (step v up ?s ev)"
    with snoc.prems e show ?thesis by (auto simp: answered_def)
  qed
qed

text \<open>
  Claim C1, as amended. Take the event loop with no refresh in flight, let a caller \<open>k\<close>
  enter \<open>getSalesforceAccessToken\<close>, let any events follow, and suppose no caller has been
  answered yet, so that \<open>k\<close> and the callers that entered after it are concurrent and all
  found the cache stale. Then exactly one authentication run has been started, all of
  these callers await it, and it has made at most three token requests. Whatever happens
  next either answers nobody, or answers all of them at once with one and the same
  result, a token or an error, still with that one run and at most three token requests,
  and leaves no refresh in flight. This holds in both variants.
\<close>

theorem single_flight:
  assumes "quiescent s0"
      and "s = run_events v up s0 (Get k # evs)"
      and "l_answers s = l_answers s0"
  shows "length (l_runs s) = Suc (length (l_runs s0)) \<and>
         l_promise s = Some (length (l_runs s0)) \<and>
         l_waiting s = map (\<lambda>c. (c, length (l_runs s0))) (k # callers evs) \<and>
         length (l_requests s) \<le> length (l_requests s0) + 3 \<and>
         (\<forall>ev. l_answers (step v up s ev) = l_answers s0 \<or>
               (\<exists>res. res \<noteq> Join \<and>
                  l_answers (step v up s ev)
                    = l_answers s0 @ map (\<lambda>c. (c, res)) (k # callers evs) \<and>
                  quiescent (step v up s ev) \<and>
                  length (l_runs (step v up s ev)) = Suc (length (l_runs s0)) \<and>
                  length (l_requests (step v up s ev)) \<le> length (l_requests s0) + 3))"
proof -
  from window_holds [OF assms(1), of v up k evs] assms(2,3)
  have w: "in_window (length (l_runs s0)) (l_answers s0) (length (l_requests s0))
             (k # callers evs) s"
    by simp
  then have 1: "length (l_runs s) = Suc (length (l_runs s0))"
      "l_promise s = Some (length (l_runs s0))"
      "l_waiting s = map (\<lambda>c. (c, length (l_runs s0))) (k # callers evs)"
    by (simp_all add: in_window_def)
  from w have 2: "length (l_requests s) \<le> length (l_requests s0) + 3"
    by (auto simp: in_window_def split: run_state.splits)
  have 3: "l_answers (step v up s ev) = l_answers s0 \<or>
           (\<exists>res. res \<noteq> Join \<and>
              l_answers (step v up s ev)
                = l_answers s0 @ map (\<lambda>c. (c, res)) (k # callers evs) \<and>
              quiescent (step v up s ev) \<and>
              length (l_runs (step v up s ev)) = Suc (length (l_runs s0)) \<and>
              length (l_requests (step v up s ev)) \<le> length (l_requests s0) + 3)" for ev
    using window_step [OF w, of ev v up] by (auto simp: in_window_def answered_def)
  from 1 2 3 show ?thesis by blast
qed

lemmas loop_defs =
  run_events_def step_def begin_attempt_def on_response_def settle_def jwt_attempt_failed_def
  fresh_entry_def init_state_def ok_answer_def transient_answer_def ok_def Let_def

lemma demo_window:
  "run_events RefreshToken up_ok init_state [Get 11, Get 12, Tick 5, Get 13]
     = \<lparr> l_env = full_env, l_cache = None, l_promise = Some 0, l_now = 1000005,
         l_runs = [AwaitingResponse 2], l_waiting = [(11, 0), (12, 0), (13, 0)], l_answers = [],
         l_requests = [rt_request full_env] \<rparr>"
  by (simp add: loop_defs)

lemma demo_settle:
  "l_answers (step RefreshToken up_ok
                (\<lparr> l_env = full_env, l_cache = None, l_promise = Some 0, l_now = 1000005,
                   l_runs = [AwaitingResponse 2], l_waiting = [(11, 0), (12, 0), (13, 0)],
                   l_answers = [], l_requests = [rt_request full_env] \<rparr>)
                (TokenResponse 0 ok_answer))
     = [(11, Return demo_auth), (12, Return demo_auth), (13, Return demo_auth)]"
  by (simp add: loop_defs demo_auth_def)

theorem single_flight_witness:
  "quiescent init_state \<and>
   l_answers (run_events RefreshToken up_ok init_state [Get 11, Get 12, Tick 5, Get 13])
     = l_answers init_state \<and>
   length (l_runs (run_events RefreshToken up_ok init_state [Get 11, Get 12, Tick 5, Get 13])) = 1 \<and>
   l_waiting (run_events RefreshToken up_ok init_state [Get 11, Get 12, Tick 5, Get 13])
     = [(11, 0), (12, 0), (13, 0)] \<and>
   (\<exists>res. res \<noteq> Join \<and>
      l_answers (step RefreshToken up_ok
                   (run_events RefreshToken up_ok init_state [Get 11, Get 12, Tick 5, Get 13])
                   (TokenResponse 0 ok_answer))
        = [(11, res), (12, res), (13, res)])"
proof -
  let ?s = "run_events RefreshToken up_ok init_state [Get 11, Get 12, Tick 5, Get 13]"
  have q: "quiescent init_state" by (simp add: quiescent_def init_state_def)
  have a: "l_answers ?s = l_answers init_state"
    unfolding demo_window by (simp add: init_state_def)
  note t = single_flight [OF q refl a]
  have i: "l_runs init_state = []" "l_answers init_state = []" by (simp_all add: init_state_def)
  from t have 1: "length (l_runs ?s) = 1" by (simp add: i)
  from t have 2: "l_waiting ?s = [(11, 0), (12, 0), (13, 0)]" by (simp add: i)
  from t have "l_answers (step RefreshToken up_ok ?s (TokenResponse 0 ok_answer)) = l_answers init_state \<or>
      (\<exists>res. res \<noteq> Join \<and>
         l_answers (step RefreshToken up_ok ?s (TokenResponse 0 ok_answer))
           = l_answers init_state @ map (\<lambda>c. (c, res)) (11 # callers [Get 12, Tick 5, Get 13]))"
    by blast
  moreover have "l_answers (step RefreshToken up_ok ?s (TokenResponse 0 ok_answer)) \<noteq> []"
    unfolding demo_window demo_settle by simp
  ultimately have 3: "\<exists>res. res \<noteq> Join \<and>
      l_answers (step RefreshToken up_ok ?s (TokenResponse 0 ok_answer))
        = [(11, res), (12, res), (13, res)]"
    by (simp add: i)
  from q a 1 2 3 show ?thesis by blast
qed

text \<open>
  Claim C1 as stated fails when the token endpoint answers the first request with the
  transient failure: two concurrent callers are served by one run, which makes two
  authentication network calls, not one.
\<close>

theorem single_flight_two_requests:
  "l_requests (run_events RefreshToken up_ok init_state
                 [Get 11, Get 12, TokenResponse 0 transient_answer, TimerFired 0,
                  TokenResponse 0 ok_answer])
     = [rt_request full_env, rt_request full_env] \<and>
   l_answers (run_events RefreshToken up_ok init_state
                [Get 11, Get 12, TokenResponse 0 transient_answer, TimerFired 0,
                 TokenResponse 0 ok_answer])
     = [(11, Return demo_auth), (12, Return demo_auth)] \<and>
   l_runs (run_events RefreshToken up_ok init_state
             [Get 11, Get 12, TokenResponse 0 transient_answer, TimerFired 0,
              TokenResponse 0 ok_answer])
     = [Settled (Return demo_auth)]"
  by (simp add: loop_defs demo_auth_def)

section \<open>Disconnect\<close>







section \<open>The event loop and the sequential run agree\<close>

lemma big_run_unfold:
  "big_run v r up w =
    (case first_request v up (env w) (now w) of
       Inl e \<Rightarrow>
        if r > 0 then big_run v (r - 1) up (sleep 1000 w)
        else (Throw e, w\<lparr> tokenCache := cache_after v (Throw e) (tokenCache w) (now w) \<rparr>)
     | Inr req \<Rightarrow>
        (case api_fetch_token up req w of
           (f, w1) \<Rightarrow>
            if r > 0 \<and> retried v f then big_run v (r - 1) up (sleep 1000 w1)
            else (verdict v f,
                  w1\<lparr> tokenCache := cache_after v (verdict v f) (tokenCache w1) (now w1) \<rparr>)))"
proof (cases v)
  case SignedAssertion
  show ?thesis
  proof (cases "jwt_prepare up (env w) (now w)")
    case (Inl e)
    with SignedAssertion show ?thesis
      by (simp add: big_run_def first_request_def cache_after_def
          reauthenticate.simps [of r] authenticateWithJwt_split)
  next
    case (Inr req)
    obtain f w1 where f: "api_fetch_token up req w = (f, w1)" by force
    show ?thesis
    proof (cases "jwt_response f")
      case (Inl e)
      with SignedAssertion Inr f show ?thesis
        by (simp add: big_run_def first_request_def cache_after_def retried_def verdict_def
            reauthenticate.simps [of r] authenticateWithJwt_split)
    next
      case r: (Inr a)
      with SignedAssertion Inr f show ?thesis
        by (simp add: big_run_def first_request_def cache_after_def retried_def verdict_def
            reauthenticate.simps [of r] authenticateWithJwt_split)
    qed
  qed
next
  case RefreshToken
  obtain f w1 where f: "api_fetch_token up (rt_request (env w)) w = (f, w1)" by force
  show ?thesis
  proof (cases "r > 0 \<and> transient f")
    case True
    with RefreshToken f show ?thesis
      by (simp add: big_run_def first_request_def retried_def refreshAccessToken_unfold [of r])
  next
    case False
    with RefreshToken f show ?thesis
      by (cases f)
         (auto simp: big_run_def first_request_def retried_def verdict_def cache_after_def
            cache_entry_def refreshAccessToken_unfold [of r] split: sum.splits)
  qed
qed

lemma begin_attempt_unfold:
  "begin_attempt v up r i s =
    (case first_request v up (l_env s) (l_now s) of
       Inl e \<Rightarrow>
        if r > 0 then s\<lparr> l_runs := (l_runs s)[i := Pausing (r - 1)] \<rparr>
        else settle i (Throw e) (s\<lparr> l_cache := cache_after v (Throw e) (l_cache s) (l_now s) \<rparr>)
     | Inr req \<Rightarrow> s\<lparr> l_runs := (l_runs s)[i := AwaitingResponse r],
                     l_requests := l_requests s @ [req] \<rparr>)"
  by (cases v)
     (auto simp: begin_attempt_def first_request_def jwt_attempt_failed_def cache_after_def
        split: sum.splits)

lemma on_response_unfold:
  "on_response v r f i s =
    (if r > 0 \<and> retried v f then s\<lparr> l_runs := (l_runs s)[i := Pausing (r - 1)] \<rparr>
     else settle i (verdict v f)
            (s\<lparr> l_cache := cache_after v (verdict v f) (l_cache s) (l_now s) \<rparr>))"
  by (cases v)
     (auto simp: on_response_def retried_def verdict_def cache_after_def jwt_attempt_failed_def
        transient_def ok_def cache_entry_def split: sum.splits fetched.splits)

lemma run_events_Nil: "run_events v up s [] = s"
  by (simp add: run_events_def)

lemma pause_then_begin:
  assumes "i < length (l_runs s)" and "l_runs s ! i = Pausing r"
  shows "run_events v up s (Tick 1000 # TimerFired i # evs)
         = run_events v up (begin_attempt v up r i (s\<lparr> l_now := l_now s + 1000 \<rparr>)) evs"
  using assms by (simp add: run_events_def step_def)

lemma answer_arrives:
  assumes "i < length (l_runs s)" and "l_runs s ! i = AwaitingResponse r"
  shows "run_events v up s (Tick d # TokenResponse i f # evs)
         = run_events v up (on_response v r f i (s\<lparr> l_now := l_now s + d \<rparr>)) evs"
  using assms by (simp add: run_events_def step_def)

lemma matches_settled:
  assumes "l_env s = env w" and "l_now s = now w" and "i < length (l_runs s)"
  shows "matches (settle i res (s\<lparr> l_cache := c \<rparr>)) (w\<lparr> tokenCache := c \<rparr>) \<and>
         l_runs (settle i res (s\<lparr> l_cache := c \<rparr>)) = (l_runs s)[i := Settled res] \<and>
         l_promise (settle i res (s\<lparr> l_cache := c \<rparr>)) = None \<and>
         l_answers (settle i res (s\<lparr> l_cache := c \<rparr>))
           = l_answers s @ map (\<lambda>(c, j). (c, res)) (filter (\<lambda>(c, j). j = i) (l_waiting s)) \<and>
         l_requests (settle i res (s\<lparr> l_cache := c \<rparr>)) = l_requests s"
  using assms by (simp add: matches_def settle_def)

text \<open>
  A run of the retry policy in the event loop, fed the answers the upstream system gives,
  ends as the sequential run does: same result, same cache, same clock, same number of
  token requests.
\<close>

lemma run_script:
  assumes "matches s w" and "i < length (l_runs s)"
  shows "matches (run_events v up (begin_attempt v up r i s) (script v r up w i))
                 (snd (big_run v r up w)) \<and>
         l_runs (run_events v up (begin_attempt v up r i s) (script v r up w i))
           = (l_runs s)[i := Settled (fst (big_run v r up w))] \<and>
         l_promise (run_events v up (begin_attempt v up r i s) (script v r up w i)) = None \<and>
         l_answers (run_events v up (begin_attempt v up r i s) (script v r up w i))
           = l_answers s @ map (\<lambda>(c, j). (c, fst (big_run v r up w)))
                              (filter (\<lambda>(c, j). j = i) (l_waiting s)) \<and>
         length (l_requests (run_events v up (begin_attempt v up r i s) (script v r up w i)))
           + length (fetches w)
           = length (l_requests s) + length (fetches (snd (big_run v r up w)))"
  using assms
proof (induction r arbitrary: s w)
  case 0
  from 0 have m: "l_env s = env w" "l_now s = now w" "l_cache s = tokenCache w"
    by (simp_all add: matches_def)
  note i = 0(2)
  show ?case
  proof (cases "first_request v up (env w) (now w)")
    case (Inl e)
    let ?c = "cache_after v (Throw e) (tokenCache w) (now w)"
    have sc: "script v 0 up w i = []" using Inl by (simp add: script.simps [of v 0])
    have b: "begin_attempt v up 0 i s = settle i (Throw e) (s\<lparr> l_cache := ?c \<rparr>)"
      using Inl m by (simp add: begin_attempt_unfold)
    have br: "big_run v 0 up w = (Throw e, w\<lparr> tokenCache := ?c \<rparr>)"
      using Inl by (simp add: big_run_unfold [of v 0])
    from matches_settled [OF m(1,2) i, of "Throw e" ?c] show ?thesis
      unfolding sc b br run_events_Nil by (simp add: fetches_def)
  next
    case (Inr req)
    obtain f w1 where f: "api_fetch_token up req w = (f, w1)" by force
    from api_fetch_token_log [OF f] have l: "log w1 = log w @ [Fetch req]" "env w1 = env w"
        "tokenCache w1 = tokenCache w" "now w \<le> now w1"
      by simp_all
    let ?c = "cache_after v (verdict v f) (tokenCache w1) (now w1)"
    let ?s1 = "s\<lparr> l_runs := (l_runs s)[i := AwaitingResponse 0],
                  l_requests := l_requests s @ [req] \<rparr>"
    let ?s2 = "?s1\<lparr> l_now := l_now ?s1 + (now w1 - now w) \<rparr>"
    have sc: "script v 0 up w i = [Tick (now w1 - now w), TokenResponse i f]"
      using Inr f by (simp add: script.simps [of v 0])
    have b: "begin_attempt v up 0 i s = ?s1"
      using Inr m by (simp add: begin_attempt_unfold)
    have a: "run_events v up ?s1 [Tick (now w1 - now w), TokenResponse i f]
               = run_events v up (on_response v 0 f i ?s2) []"
      using i by (intro answer_arrives) simp_all
    have m2: "l_env ?s2 = env w1" "l_now ?s2 = now w1" "i < length (l_runs ?s2)"
      using m l i by simp_all
    have o: "on_response v 0 f i ?s2 = settle i (verdict v f) (?s2\<lparr> l_cache := ?c \<rparr>)"
      using m l by (simp add: on_response_unfold)
    have br: "big_run v 0 up w = (verdict v f, w1\<lparr> tokenCache := ?c \<rparr>)"
      using Inr f by (simp add: big_run_unfold [of v 0])
    from matches_settled [OF m2, of "verdict v f" ?c] l show ?thesis
      unfolding sc b a o br run_events_Nil by (simp add: fetches_def)
  qed
next
  case (Suc r)
  from Suc.prems have m: "l_env s = env w" "l_now s = now w" "l_cache s = tokenCache w"
    by (simp_all add: matches_def)
  note i = Suc.prems(2)
  show ?case
  proof (cases "first_request v up (env w) (now w)")
    case (Inl e)
    let ?s1 = "s\<lparr> l_runs := (l_runs s)[i := Pausing r] \<rparr>"
    let ?s2 = "?s1\<lparr> l_now := l_now ?s1 + 1000 \<rparr>"
    have sc: "script v (Suc r) up w i = Tick 1000 # TimerFired i # script v r up (sleep 1000 w) i"
      using Inl by (simp add: script.simps [of v "Suc r"])
    have b: "begin_attempt v up (Suc r) i s = ?s1"
      using Inl m by (simp add: begin_attempt_unfold)
    have p: "run_events v up ?s1 (Tick 1000 # TimerFired i # script v r up (sleep 1000 w) i)
               = run_events v up (begin_attempt v up r i ?s2) (script v r up (sleep 1000 w) i)"
      using i by (intro pause_then_begin) simp_all
    have br: "big_run v (Suc r) up w = big_run v r up (sleep 1000 w)"
      using Inl by (simp add: big_run_unfold [of v "Suc r"])
    have m2: "matches ?s2 (sleep 1000 w)" "i < length (l_runs ?s2)"
      using m i by (simp_all add: matches_def)
    from Suc.IH [OF m2] show ?thesis
      unfolding sc b p br by simp
  next
    case (Inr req)
    obtain f w1 where f: "api_fetch_token up req w = (f, w1)" by force
    from api_fetch_token_log [OF f] have l: "log w1 = log w @ [Fetch req]" "env w1 = env w"
        "tokenCache w1 = tokenCache w" "now w \<le> now w1"
      by simp_all
    let ?s1 = "s\<lparr> l_runs := (l_runs s)[i := AwaitingResponse (Suc r)],
                  l_requests := l_requests s @ [req] \<rparr>"
    let ?s2 = "?s1\<lparr> l_now := l_now ?s1 + (now w1 - now w) \<rparr>"
    have b: "begin_attempt v up (Suc r) i s = ?s1"
      using Inr m by (simp add: begin_attempt_unfold)
    have a: "run_events v up ?s1 (Tick (now w1 - now w) # TokenResponse i f # evs)
               = run_events v up (on_response v (Suc r) f i ?s2) evs" for evs
      using i by (intro answer_arrives) simp_all
    have m2: "l_env ?s2 = env w1" "l_now ?s2 = now w1" "i < length (l_runs ?s2)"
      using m l i by simp_all
    show ?thesis
    proof (cases "retried v f")
      case True
      let ?s3 = "?s2\<lparr> l_runs := (l_runs ?s2)[i := Pausing r] \<rparr>"
      let ?s4 = "?s3\<lparr> l_now := l_now ?s3 + 1000 \<rparr>"
      have sc: "script v (Suc r) up w i
                  = Tick (now w1 - now w) # TokenResponse i f # Tick 1000 # TimerFired i #
                    script v r up (sleep 1000 w1) i"
        using Inr f True by (simp add: script.simps [of v "Suc r"])
      have o: "on_response v (Suc r) f i ?s2 = ?s3"
        using True by (simp add: on_response_unfold)
      have p: "run_events v up ?s3 (Tick 1000 # TimerFired i # script v r up (sleep 1000 w1) i)
                 = run_events v up (begin_attempt v up r i ?s4) (script v r up (sleep 1000 w1) i)"
        using i by (intro pause_then_begin) simp_all
      have br: "big_run v (Suc r) up w = big_run v r up (sleep 1000 w1)"
        using Inr f True by (simp add: big_run_unfold [of v "Suc r"])
      have m4: "matches ?s4 (sleep 1000 w1)" "i < length (l_runs ?s4)"
        using m m2 l i by (simp_all add: matches_def)
      have q: "length (fetches (sleep 1000 w1)) = Suc (length (fetches w))"
        using l by (simp add: fetches_def)
      from Suc.IH [OF m4] q show ?thesis
        unfolding sc b a o p br by simp
    next
      case False
      let ?c = "cache_after v (verdict v f) (tokenCache w1) (now w1)"
      have sc: "script v (Suc r) up w i = [Tick (now w1 - now w), TokenResponse i f]"
        using Inr f False by (simp add: script.simps [of v "Suc r"])
      have o: "on_response v (Suc r) f i ?s2 = settle i (verdict v f) (?s2\<lparr> l_cache := ?c \<rparr>)"
        using m l False by (simp add: on_response_unfold)
      have br: "big_run v (Suc r) up w = (verdict v f, w1\<lparr> tokenCache := ?c \<rparr>)"
        using Inr f False by (simp add: big_run_unfold [of v "Suc r"])
      from matches_settled [OF m2, of "verdict v f" ?c] l show ?thesis
        unfolding sc b a o br run_events_Nil by (simp add: fetches_def)
    qed
  qed
qed

text \<open>
  A single caller that finds the cache stale, with no refresh in flight, is answered by
  the event loop with the result the sequential \<open>getSalesforceAccessToken\<close> returns, and
  the cache, the clock and \<open>tokenPromise\<close> end as they do there.
\<close>

lemma get_agrees:
  assumes "matches s w" and "quiescent s" and "fresh_token w = None" and "\<not> tokenPromise w"
      and "s' = run_events v up s
                  (Get c # script v 2 up (w\<lparr> tokenPromise := True \<rparr>) (length (l_runs s)))"
      and "R = (case v of
                  SignedAssertion \<Rightarrow> jwt_getSalesforceAccessToken up w
                | RefreshToken \<Rightarrow> rt_getSalesforceAccessToken up w)"
  shows "l_answers s' = l_answers s @ [(c, fst R)] \<and> matches s' (snd R) \<and>
         l_promise s' = None \<and> \<not> tokenPromise (snd R) \<and>
         length (l_requests s') + length (fetches w)
           = length (l_requests s) + length (fetches (snd R))"
proof -
  let ?i = "length (l_runs s)"
  let ?w = "w\<lparr> tokenPromise := True \<rparr>"
  let ?s0 = "s\<lparr> l_runs := l_runs s @ [Pausing 2], l_promise := Some ?i,
                l_waiting := l_waiting s @ [(c, ?i)] \<rparr>"
  from assms(1) have m: "l_env s = env w" "l_now s = now w" "l_cache s = tokenCache w"
    by (simp_all add: matches_def)
  from assms(2) have q: "l_promise s = None" "l_waiting s = []"
    by (simp_all add: quiescent_def)
  have g: "step v up s (Get c) = begin_attempt v up 2 ?i ?s0"
    using m q assms(3) by (simp add: step_def fresh_token_def Let_def)
  have e: "s' = run_events v up (begin_attempt v up 2 ?i ?s0) (script v 2 up ?w ?i)"
    using assms(5) g by (simp add: run_events_Cons)
  have m0: "matches ?s0 ?w" "?i < length (l_runs ?s0)"
    using m by (simp_all add: matches_def)
  have r: "R = (fst (big_run v 2 up ?w), (snd (big_run v 2 up ?w))\<lparr> tokenPromise := False \<rparr>)"
    using assms(3,4,6) by (cases v) (simp_all add: jwt_get_stale rt_get_stale big_run_def)
  from run_script [OF m0, of v up 2] q show ?thesis
    unfolding e r by (simp add: matches_def fetches_def)
qed

end
